theory Spec2Isabelle
  imports Main
begin

section \<open>Values, platform objects and the environment\<close>

text \<open>
  The two scripts of the repository, \<^verbatim>\<open>get_followers.py\<close> and \<^verbatim>\<open>add_account.py\<close>,
  are glue around the twscrape library. The library, the clock and the file system are
  the environment of the model: every call into the library takes the state of the world
  and returns the next one, every exception a call raises is the value \<open>Inl msg\<close> with
  \<open>msg\<close> the text of \<^verbatim>\<open>str(e)\<close>, and every file written, every request sent and every
  pause is an \<open>event\<close> in the list of effects a function returns.

  Python dictionaries built by a literal are association lists in the order of the
  literal, which is the order \<^verbatim>\<open>.keys()\<close> gives to \<^verbatim>\<open>csv.DictWriter\<close>.

  The boundary of the model: the exceptions are those of the calls into the library,
  all of class \<^verbatim>\<open>Exception\<close>, which is what the handlers of the scripts catch; writing
  a file and printing do not fail; the output on the terminal is not modelled.
\<close>

datatype pyval =
    PNone
  | PBool bool
  | PInt int
  | PStr string
  | PList "pyval list"
  | PDict "(string \<times> pyval) list"

type_synonym pydict = "(string \<times> pyval) list"

definition keys :: "pydict \<Rightarrow> string list" where
  "keys d = map fst d"

definition getitem :: "pydict \<Rightarrow> string \<Rightarrow> pyval option" where
  "getitem d k = map_of d k"

text \<open>
  A twscrape \<^verbatim>\<open>User\<close>: the target and each of its followers. The three attributes
  read through \<^verbatim>\<open>getattr\<close> with a default may be absent; \<open>u_created\<close> is the text
  \<^verbatim>\<open>str\<close> gives of the attribute.
\<close>

record user =
  u_id :: int
  u_username :: string
  u_displayname :: string
  u_followersCount :: int
  u_friendsCount :: int
  u_statusesCount :: int
  u_verified :: "bool option"
  u_created :: "string option"
  u_rawDescription :: "string option"

text \<open>
  A value of \<^verbatim>\<open>datetime.now()\<close>, as the two renderings the scripts take of it:
  \<^verbatim>\<open>strftime('%Y%m%d_%H%M%S')\<close> and \<^verbatim>\<open>isoformat()\<close>.
\<close>

record datetime =
  dt_stamp :: string
  dt_iso :: string

datatype event =
    Lookup string
  | Fetch int "int option"
  | WriteJson string pydict
  | WriteCsv string "string list" "pydict list"
  | Sleep nat
  | CreateEmpty string
  | WriteSummary string "string list" "pydict list"

text \<open>
  The environment. \<open>env_PROXY\<close> is the module constant \<^verbatim>\<open>PROXY\<close>;
  \<open>user_by_login\<close> and \<open>followers\<close> are the two calls on the \<^verbatim>\<open>API\<close> object, given
  the proxy the object was built with; the lookup may return \<^verbatim>\<open>None\<close>. \<open>now\<close> is
  \<^verbatim>\<open>datetime.now()\<close> and \<open>sleep\<close> is \<^verbatim>\<open>asyncio.sleep\<close>: the world after the pause.
\<close>

record 'w env =
  env_PROXY :: "string option"
  user_by_login :: "string option \<Rightarrow> string \<Rightarrow> 'w \<Rightarrow> (string + user option) \<times> 'w"
  followers :: "string option \<Rightarrow> int \<Rightarrow> int option \<Rightarrow> 'w \<Rightarrow> (string + user list) \<times> 'w"
  now :: "'w \<Rightarrow> datetime \<times> 'w"
  sleep :: "nat \<Rightarrow> 'w \<Rightarrow> 'w"

datatype py_error = IndexError | SystemExit

section \<open>get_followers.py\<close>

subsection \<open>One target: get_followers\<close>

definition fetch_limit :: "int \<Rightarrow> int option" where
  "fetch_limit limit = (if limit \<le> 0 then None else Some limit)"

definition api_proxy :: "'w env \<Rightarrow> bool \<Rightarrow> string option" where
  "api_proxy env use_proxy =
     (case (if use_proxy then env_PROXY env else None) of
        None \<Rightarrow> None
      | Some p \<Rightarrow> (if p = [] then None else Some p))"

definition follower_data :: "int \<Rightarrow> user \<Rightarrow> pydict" where
  "follower_data i follower =
     [(''rank'', PInt i),
      (''username'', PStr (u_username follower)),
      (''display_name'', PStr (u_displayname follower)),
      (''user_id'', PInt (u_id follower)),
      (''followers'', PInt (u_followersCount follower)),
      (''following'', PInt (u_friendsCount follower)),
      (''tweets'', PInt (u_statusesCount follower)),
      (''verified'', PBool (case u_verified follower of None \<Rightarrow> False | Some b \<Rightarrow> b)),
      (''created_at'', PStr (case u_created follower of None \<Rightarrow> ''N/A'' | Some s \<Rightarrow> s)),
      (''description'', PStr (case u_rawDescription follower of None \<Rightarrow> [] | Some s \<Rightarrow> s))]"

text \<open>The loop \<^verbatim>\<open>for i, follower in enumerate(followers, 1)\<close>, started at \<open>i = 1\<close>.\<close>

fun process_followers :: "int \<Rightarrow> user list \<Rightarrow> pydict list" where
  "process_followers i [] = []"
| "process_followers i (follower # rest) =
     follower_data i follower # process_followers (i + 1) rest"

text \<open>The \<^verbatim>\<open>except Exception as e\<close> branch: the summary of a failed target.\<close>

definition failure :: "'w env \<Rightarrow> string \<Rightarrow> string \<Rightarrow> 'w \<Rightarrow> event list \<Rightarrow> pydict \<times> 'w \<times> event list" where
  "failure env username e w evs =
     (let (t, w') = now env w
      in ([(''username'', PStr username),
           (''display_name'', PStr ''N/A''),
           (''total_followers'', PInt 0),
           (''fetched_count'', PInt 0),
           (''timestamp'', PStr (dt_iso t)),
           (''status'', PStr (''error: '' @ e)),
           (''json_file'', PNone),
           (''csv_file'', PNone)], w', evs))"

text \<open>
  The text of the \<^verbatim>\<open>AttributeError\<close> raised by \<^verbatim>\<open>user.displayname\<close> when the lookup
  returned \<^verbatim>\<open>None\<close>.
\<close>

definition none_displayname :: string where
  "none_displayname =
     [CHR 0x27] @ ''NoneType'' @ [CHR 0x27] @ '' object has no attribute ''
       @ [CHR 0x27] @ ''displayname'' @ [CHR 0x27]"

text \<open>
  The \<^verbatim>\<open>try\<close> body after a successful fetch: rows, file names, the two files and the
  summary. The CSV file is written under the guard \<^verbatim>\<open>if results:\<close>.
\<close>

definition save_results ::
  "'w env \<Rightarrow> string \<Rightarrow> bool \<Rightarrow> user \<Rightarrow> user list \<Rightarrow> 'w \<Rightarrow> event list \<Rightarrow> pydict \<times> 'w \<times> event list" where
  "save_results env username use_timestamp user fs w evs =
     (let results = process_followers 1 fs;
          (timestamp_str, w1) =
             (if use_timestamp then (let (t, w') = now env w in (''_'' @ dt_stamp t, w'))
              else ([], w));
          base_filename = ''followers_'' @ username @ timestamp_str;
          (t2, w2) = now env w1;
          output_data =
            [(''target_user'', PStr username),
             (''target_display_name'', PStr (u_displayname user)),
             (''target_followers_total'', PInt (u_followersCount user)),
             (''fetched_count'', PInt (int (length fs))),
             (''fetched_at'', PStr (dt_iso t2)),
             (''followers'', PList (map PDict results))];
          json_file = base_filename @ ''.json'';
          csv_file = base_filename @ ''.csv'';
          csv_events =
            (case results of
               [] \<Rightarrow> []
             | r # _ \<Rightarrow> [WriteCsv csv_file (keys r) results]);
          (t3, w3) = now env w2
      in ([(''username'', PStr username),
           (''display_name'', PStr (u_displayname user)),
           (''total_followers'', PInt (u_followersCount user)),
           (''fetched_count'', PInt (int (length fs))),
           (''timestamp'', PStr (dt_iso t3)),
           (''status'', PStr ''success''),
           (''json_file'', PStr json_file),
           (''csv_file'', PStr csv_file)],
          w3, evs @ [WriteJson json_file output_data] @ csv_events))"

definition get_followers ::
  "'w env \<Rightarrow> string \<Rightarrow> int \<Rightarrow> bool \<Rightarrow> bool \<Rightarrow> 'w \<Rightarrow> pydict \<times> 'w \<times> event list" where
  "get_followers env username limit use_timestamp use_proxy w =
     (let proxy = api_proxy env use_proxy
      in case user_by_login env proxy username w of
           (Inl e, w1) \<Rightarrow> failure env username e w1 [Lookup username]
         | (Inr None, w1) \<Rightarrow> failure env username none_displayname w1 [Lookup username]
         | (Inr (Some user), w1) \<Rightarrow>
             (case followers env proxy (u_id user) (fetch_limit limit) w1 of
                (Inl e, w2) \<Rightarrow>
                  failure env username e w2
                    [Lookup username, Fetch (u_id user) (fetch_limit limit)]
              | (Inr fs, w2) \<Rightarrow>
                  save_results env username use_timestamp user fs w2
                    [Lookup username, Fetch (u_id user) (fetch_limit limit)]))"

subsection \<open>Several targets: get_followers_multiple\<close>

text \<open>
  The loop \<^verbatim>\<open>for i, username in enumerate(usernames, 1)\<close>: \<open>i\<close> is the running
  index, \<open>n\<close> is \<^verbatim>\<open>len(usernames)\<close>, \<open>all_results\<close> the list the loop appends to.
\<close>

fun get_followers_loop ::
  "'w env \<Rightarrow> nat \<Rightarrow> nat \<Rightarrow> string list \<Rightarrow> int \<Rightarrow> bool \<Rightarrow> bool \<Rightarrow> pydict list \<Rightarrow> 'w
     \<Rightarrow> pydict list \<times> 'w \<times> event list" where
  "get_followers_loop env i n [] limit use_timestamp use_proxy all_results w =
     (all_results, w, [])"
| "get_followers_loop env i n (username # rest) limit use_timestamp use_proxy all_results w =
     (let (result, w1, evs1) = get_followers env username limit use_timestamp use_proxy w;
          (w2, evs2) = (if i < n then (sleep env 2 w1, [Sleep 2]) else (w1, []));
          (final, w3, evs3) =
             get_followers_loop env (i + 1) n rest limit use_timestamp use_proxy
               (all_results @ [result]) w2
      in (final, w3, evs1 @ evs2 @ evs3))"

text \<open>
  After the loop the summary file is opened for writing and its header is taken from
  \<^verbatim>\<open>all_results[0].keys()\<close>, which raises \<^verbatim>\<open>IndexError\<close> on an empty list, the
  file already created.
\<close>

definition get_followers_multiple ::
  "'w env \<Rightarrow> string list \<Rightarrow> int \<Rightarrow> bool \<Rightarrow> bool \<Rightarrow> 'w
     \<Rightarrow> (py_error + pydict list) \<times> 'w \<times> event list" where
  "get_followers_multiple env usernames limit use_timestamp use_proxy w =
     (let (all_results, w1, evs) =
             get_followers_loop env 1 (length usernames) usernames limit use_timestamp
               use_proxy [] w;
          (timestamp_str, w2) =
             (if use_timestamp then (let (t, w') = now env w1 in (''_'' @ dt_stamp t, w'))
              else ([], w1));
          summary_file = ''followers_summary'' @ timestamp_str @ ''.csv''
      in case all_results of
           [] \<Rightarrow> (Inl IndexError, w2, evs @ [CreateEmpty summary_file])
         | r # _ \<Rightarrow>
             (Inr all_results, w2, evs @ [WriteSummary summary_file (keys r) all_results]))"

subsection \<open>The command line: main\<close>

text \<open>
  \<open>cli\<close> is what the command line gives: the positional user names, the value of
  \<^verbatim>\<open>--limit\<close> when the option is present, and the two flags. \<open>parse_args\<close> is the
  parser \<^verbatim>\<open>main\<close> declares: \<^verbatim>\<open>nargs="+"\<close> refuses an empty list of names (the parser
  exits), \<^verbatim>\<open>default=0\<close> fills the limit in.
\<close>

record cli =
  cli_usernames :: "string list"
  cli_limit :: "int option"
  cli_timestamp :: bool
  cli_proxy :: bool

record args =
  args_usernames :: "string list"
  args_limit :: int
  args_timestamp :: bool
  args_proxy :: bool

definition parse_args :: "cli \<Rightarrow> py_error + args" where
  "parse_args c =
     (if cli_usernames c = [] then Inl SystemExit
      else Inr \<lparr>args_usernames = cli_usernames c,
                args_limit = (case cli_limit c of None \<Rightarrow> 0 | Some l \<Rightarrow> l),
                args_timestamp = cli_timestamp c,
                args_proxy = cli_proxy c\<rparr>)"

text \<open>
  \<^verbatim>\<open>main\<close> returns nothing in the source; the model returns the summaries of the run,
  the final world and the effects, so that they can be observed.
\<close>

definition main :: "'w env \<Rightarrow> cli \<Rightarrow> 'w \<Rightarrow> (py_error + pydict list) \<times> 'w \<times> event list" where
  "main env c w =
     (case parse_args c of
        Inl e \<Rightarrow> (Inl e, w, [])
      | Inr a \<Rightarrow>
          (if length (args_usernames a) = 1
           then (let (result, w', evs) =
                        get_followers env (hd (args_usernames a)) (args_limit a)
                          (args_timestamp a) (args_proxy a) w
                 in (Inr [result], w', evs))
           else get_followers_multiple env (args_usernames a) (args_limit a)
                  (args_timestamp a) (args_proxy a) w))"

subsection \<open>A test environment\<close>

text \<open>
  A small world for concrete runs: \<open>alice\<close> has three followers, \<open>bob\<close> exists and has
  none, the lookup of \<open>ghost\<close> returns \<^verbatim>\<open>None\<close>, every other lookup raises, and the
  followers of \<open>carol\<close> cannot be fetched. The world is a counter of the calls made.
\<close>

definition mk_user :: "int \<Rightarrow> string \<Rightarrow> int \<Rightarrow> user" where
  "mk_user i name c =
     \<lparr>u_id = i, u_username = name, u_displayname = name, u_followersCount = c,
      u_friendsCount = 0, u_statusesCount = 0, u_verified = None, u_created = None,
      u_rawDescription = None\<rparr>"

definition alice_followers :: "user list" where
  "alice_followers = [mk_user 11 ''dave'' 5, mk_user 12 ''erin'' 7, mk_user 13 ''frank'' 9]"

definition test_env :: "nat env" where
  "test_env =
     \<lparr>env_PROXY = None,
      user_by_login = (\<lambda>proxy name w.
         (if name = ''alice'' then Inr (Some (mk_user 1 ''alice'' 3))
          else if name = ''bob'' then Inr (Some (mk_user 2 ''bob'' 0))
          else if name = ''carol'' then Inr (Some (mk_user 3 ''carol'' 8))
          else if name = ''ghost'' then Inr None
          else Inl ''User not found'', Suc w)),
      followers = (\<lambda>proxy uid lim w.
         (if uid = 1 then Inr (case lim of None \<Rightarrow> alice_followers
                                | Some k \<Rightarrow> take (nat k) alice_followers)
          else if uid = 2 then Inr []
          else Inl ''No account available'', Suc w)),
      now = (\<lambda>w. (\<lparr>dt_stamp = ''20251102_213045'', dt_iso = ''2025-11-02T21:30:45''\<rparr>, Suc w)),
      sleep = (\<lambda>secs w. w + secs)\<rparr>"

subsection \<open>Vocabulary of the properties\<close>

text \<open>
  \<open>summary_keys\<close> are the keys of the two summary literals of \<open>get_followers\<close>;
  \<open>expected_status\<close> is the status a target's summary must carry for what the platform
  answers: \<open>success\<close> when the lookup and the fetch both return, \<open>error: \<close> followed by
  the text of the exception otherwise.
\<close>

definition summary_keys :: "string list" where
  "summary_keys = [''username'', ''display_name'', ''total_followers'', ''fetched_count'',
      ''timestamp'', ''status'', ''json_file'', ''csv_file'']"

definition expected_status :: "'w env \<Rightarrow> string \<Rightarrow> int \<Rightarrow> bool \<Rightarrow> 'w \<Rightarrow> string" where
  "expected_status env username limit use_proxy w =
     (case user_by_login env (api_proxy env use_proxy) username w of
        (Inl e, w1) \<Rightarrow> ''error: '' @ e
      | (Inr None, w1) \<Rightarrow> ''error: '' @ none_displayname
      | (Inr (Some user), w1) \<Rightarrow>
          (case followers env (api_proxy env use_proxy) (u_id user) (fetch_limit limit) w1 of
             (Inl e, w2) \<Rightarrow> ''error: '' @ e
           | (Inr fs, w2) \<Rightarrow> ''success''))"

text \<open>A separator between every two consecutive elements, and tests on events.\<close>

fun intersperse :: "'a \<Rightarrow> 'a list \<Rightarrow> 'a list" where
  "intersperse s [] = []"
| "intersperse s [x] = [x]"
| "intersperse s (x # y # ys) = x # s # intersperse s (y # ys)"

fun is_sleep :: "event \<Rightarrow> bool" where
  "is_sleep (Sleep d) = True"
| "is_sleep e = False"

fun is_summary_write :: "event \<Rightarrow> bool" where
  "is_summary_write (WriteSummary file header rows) = True"
| "is_summary_write e = False"

fun is_fetch :: "event \<Rightarrow> bool" where
  "is_fetch (Fetch uid cap) = True"
| "is_fetch e = False"

fun is_csv_write :: "event \<Rightarrow> bool" where
  "is_csv_write (WriteCsv file header rows) = True"
| "is_csv_write e = False"

text \<open>
  \<open>target_start env i n us \<dots> w k\<close> is the world in which the turn of the \<open>k\<close>-th target of
  \<open>us\<close> starts, when the loop is entered in \<open>w\<close>: after the targets before it and the
  pauses between them.
\<close>

fun target_start ::
  "'w env \<Rightarrow> nat \<Rightarrow> nat \<Rightarrow> string list \<Rightarrow> int \<Rightarrow> bool \<Rightarrow> bool \<Rightarrow> 'w \<Rightarrow> nat \<Rightarrow> 'w" where
  "target_start env i n [] limit use_timestamp use_proxy w k = w"
| "target_start env i n (username # rest) limit use_timestamp use_proxy w 0 = w"
| "target_start env i n (username # rest) limit use_timestamp use_proxy w (Suc k) =
     (let (result, w1, evs1) = get_followers env username limit use_timestamp use_proxy w;
          w2 = (if i < n then sleep env 2 w1 else w1)
      in target_start env (i + 1) n rest limit use_timestamp use_proxy w2 k)"

text \<open>
  Modelled from the spec: the contract of the paginated collector, which the library
  implements as \<^verbatim>\<open>api.followers\<close>: of the items of a target, in the order of the
  platform, all of them when the limit is absent and the first \<open>l\<close> of them when it is
  bounded by \<open>l\<close>.
\<close>

definition collected :: "user list \<Rightarrow> int option \<Rightarrow> user list" where
  "collected items cap = (case cap of None \<Rightarrow> items | Some l \<Rightarrow> take (nat l) items)"

text \<open>Two command lines for concrete runs: one target, and three targets the second of
  which does not exist.\<close>

definition single_cli :: cli where
  "single_cli = \<lparr>cli_usernames = [''alice''], cli_limit = None, cli_timestamp = False, cli_proxy = False\<rparr>"

definition batch_cli :: cli where
  "batch_cli = \<lparr>cli_usernames = [''alice'', ''nobody'', ''bob''], cli_limit = None,
      cli_timestamp = False, cli_proxy = False\<rparr>"

definition test_targets :: "string list" where
  "test_targets = [''alice'', ''nobody'', ''bob'']"

section \<open>add_account.py\<close>

subsection \<open>The account pool\<close>

text \<open>
  A row of the pool's table, as \<^verbatim>\<open>pool.add_account\<close> is given it: the user name and
  the credentials. The pool is the list of its rows in the order of insertion. What the
  library keeps about the health and the use of an account (whether it is active, when
  it was last used, its errors) is read through \<open>accounts_info\<close> and belongs to the
  world, which \<open>login_all\<close> and every request change.
\<close>

record account =
  acc_username :: string
  acc_password :: string
  acc_email :: string
  acc_email_password :: string
  acc_cookies :: string

record account_info =
  ai_username :: string
  ai_logged_in :: bool
  ai_active :: bool
  ai_last_used :: "string option"
  ai_total_req :: nat
  ai_error_msg :: "string option"

text \<open>
  The calls on \<^verbatim>\<open>api.pool\<close> that do not write the rows, whether the removal
  \<^verbatim>\<open>delete_accounts\<close> raises, and what the pool's own \<^verbatim>\<open>add_account\<close> does to the
  table when the user name is already in it, are parameters. \<open>delete_raises\<close> and
  \<open>login_all\<close> return the text of the exception raised, if any; the two calls the
  script makes outside any handler, \<^verbatim>\<open>add_account\<close> and \<^verbatim>\<open>accounts_info\<close>, do not raise
  (an addition always succeeds).
\<close>

record 'w pool_env =
  delete_raises :: "string \<Rightarrow> account list \<Rightarrow> 'w \<Rightarrow> string option \<times> 'w"
  add_existing :: "account \<Rightarrow> account list \<Rightarrow> account list"
  login_all :: "account list \<Rightarrow> 'w \<Rightarrow> string option \<times> 'w"
  accounts_info :: "account list \<Rightarrow> 'w \<Rightarrow> account_info list \<times> 'w"

text \<open>
  Modelled from the spec: the removal of the credential store, which the library
  implements as \<^verbatim>\<open>pool.delete_accounts\<close>: it deletes the record if present and is a
  no-op, not an error, if absent. This is the table after a removal that returns; after
  one that raises the table is as it was.
\<close>

definition delete_accounts :: "string \<Rightarrow> account list \<Rightarrow> account list" where
  "delete_accounts username pool = filter (\<lambda>a. acc_username a \<noteq> username) pool"

text \<open>
  \<^verbatim>\<open>pool.add_account\<close>: a new row at the end of the table; on a user name that is
  already in the table, whatever the library does (\<open>add_existing\<close>).
\<close>

definition pool_add_account :: "'w pool_env \<Rightarrow> account \<Rightarrow> account list \<Rightarrow> account list" where
  "pool_add_account penv a pool =
     (if acc_username a \<in> set (map acc_username pool) then add_existing penv a pool
      else pool @ [a])"

datatype pool_event =
    Deleted string
  | DeleteFailed string string
  | Added string string
  | LoginAll "string option"
  | Tested string bool
  | NotActive
  | Skipping string

subsection \<open>One account: add_account_with_cookies\<close>

text \<open>
  The three handlers of the script catch and print: when the removal raises, the script
  goes on to \<^verbatim>\<open>pool.add_account\<close> with the table as it was, the old row still in it;
  the exception of \<open>login_all\<close> and the one of the test request change nothing else. The
  test request is sent when the first account of \<open>accounts_info\<close> is active; it succeeds
  when the lookup returns a user.
\<close>

definition add_account_with_cookies ::
  "'w env \<Rightarrow> 'w pool_env \<Rightarrow> string \<Rightarrow> string \<Rightarrow> account list \<times> 'w
     \<Rightarrow> (account list \<times> 'w) \<times> pool_event list" where
  "add_account_with_cookies env penv username cookies st =
     (let (pool, w) = st;
          password = [];
          email = [];
          email_password = [];
          (failed, w0) = delete_raises penv username pool w;
          (pool1, removal) =
             (case failed of
                None \<Rightarrow> (delete_accounts username pool, [Deleted username])
              | Some e \<Rightarrow> (pool, [DeleteFailed username e]));
          pool2 = pool_add_account penv
                    \<lparr>acc_username = username, acc_password = password, acc_email = email,
                     acc_email_password = email_password, acc_cookies = cookies\<rparr> pool1;
          (raised, w1) = login_all penv pool2 w0;
          (accounts, w2) = accounts_info penv pool2 w1;
          (tested, w3) =
             (if accounts \<noteq> [] \<and> ai_active (hd accounts)
              then (let (res, w') = user_by_login env None username w2
                    in ([Tested username (case res of Inr (Some user) \<Rightarrow> True | _ \<Rightarrow> False)], w'))
              else ([NotActive], w2))
      in ((pool2, w3), removal @ [Added username cookies, LoginAll raised] @ tested))"

subsection \<open>The credentials file: add_all_from_file\<close>

text \<open>
  Text is a list of characters below 256. \<open>is_space\<close> are those of them that
  \<^verbatim>\<open>str.strip()\<close> removes: tab, line feed, vertical tab, form feed, carriage return, the
  four separators \<open>0x1c\<close> to \<open>0x1f\<close>, the space, \<open>0x85\<close> and \<open>0xa0\<close>.
\<close>

definition is_space :: "char \<Rightarrow> bool" where
  "is_space c = (of_char c \<in> set [9, 10, 11, 12, 13, 28, 29, 30, 31, 32, 133, 160 :: nat])"

definition strip :: "string \<Rightarrow> string" where
  "strip s = rev (dropWhile is_space (rev (dropWhile is_space s)))"

text \<open>
  \<^verbatim>\<open>line.split(":")\<close>: the fields between the colons, one more than there are colons.
\<close>

fun split_colon :: "string \<Rightarrow> string list" where
  "split_colon [] = [[]]"
| "split_colon (c # cs) =
     (if c = CHR '':'' then [] # split_colon cs
      else (case split_colon cs of
              [] \<Rightarrow> [[c]]
            | part # parts \<Rightarrow> (c # part) # parts))"

text \<open>
  The loop over the lines kept. The unpacking of the fields into three names raises
  \<^verbatim>\<open>ValueError\<close> unless there are exactly three; the handler prints the line and goes
  on with the next one.
\<close>

fun add_lines ::
  "'w env \<Rightarrow> 'w pool_env \<Rightarrow> string list \<Rightarrow> account list \<times> 'w
     \<Rightarrow> (account list \<times> 'w) \<times> pool_event list" where
  "add_lines env penv [] st = (st, [])"
| "add_lines env penv (line # rest) st =
     (case split_colon line of
        [username, auth_token, ct0] \<Rightarrow>
          (let cookies = ''auth_token='' @ auth_token @ ''; ct0='' @ ct0;
               (st1, evs1) = add_account_with_cookies env penv username cookies st;
               (st2, evs2) = add_lines env penv rest st1
           in (st2, evs1 @ evs2))
      | _ \<Rightarrow>
          (let (st2, evs2) = add_lines env penv rest st
           in (st2, Skipping line # evs2)))"

text \<open>
  \<open>file_lines\<close> are the lines the iteration over the open file gives, each with its
  line end.
\<close>

definition add_all_from_file ::
  "'w env \<Rightarrow> 'w pool_env \<Rightarrow> string list \<Rightarrow> account list \<times> 'w
     \<Rightarrow> (account list \<times> 'w) \<times> pool_event list" where
  "add_all_from_file env penv file_lines st =
     (let lines = map strip (filter (\<lambda>line. strip line \<noteq> []) file_lines)
      in add_lines env penv lines st)"

subsection \<open>Vocabulary of the properties of add_account.py\<close>

text \<open>
  \<open>entry_of\<close> reads a line as the claim on the credentials file words it: a line that
  splits into exactly three fields is an entry, the user name and the cookies made of
  the two tokens; any other line is none. \<open>entries\<close> are the entries of a file in the
  order of the file, blank lines dropped. \<open>adds_of\<close> are the accounts added in a list
  of effects, \<open>add_each\<close> adds entries one after the other.
\<close>

definition entry_of :: "string \<Rightarrow> (string \<times> string) option" where
  "entry_of line =
     (let parts = split_colon line
      in if length parts = 3
         then Some (parts ! 0, ''auth_token='' @ parts ! 1 @ ''; ct0='' @ parts ! 2)
         else None)"

definition entries :: "string list \<Rightarrow> (string \<times> string) list" where
  "entries file_lines =
     List.map_filter entry_of (filter (\<lambda>line. line \<noteq> []) (map strip file_lines))"

fun adds_of :: "pool_event list \<Rightarrow> (string \<times> string) list" where
  "adds_of [] = []"
| "adds_of (Added username cookies # evs) = (username, cookies) # adds_of evs"
| "adds_of (e # evs) = adds_of evs"

fun add_each ::
  "'w env \<Rightarrow> 'w pool_env \<Rightarrow> (string \<times> string) list \<Rightarrow> account list \<times> 'w \<Rightarrow> account list \<times> 'w" where
  "add_each env penv [] st = st"
| "add_each env penv ((username, cookies) # rest) st =
     add_each env penv rest (fst (add_account_with_cookies env penv username cookies st))"

subsection \<open>A test pool\<close>

text \<open>
  A library whose removal returns, that refuses to add a user name twice and finds
  every account active; the same library with a removal that raises; and a credentials
  file with a blank line, a line of two fields and a line of four.
\<close>

definition test_penv :: "nat pool_env" where
  "test_penv =
     \<lparr>delete_raises = (\<lambda>username pool w. (None, Suc w)),
      add_existing = (\<lambda>a pool. pool),
      login_all = (\<lambda>pool w. (None, Suc w)),
      accounts_info = (\<lambda>pool w.
         (map (\<lambda>a. \<lparr>ai_username = acc_username a, ai_logged_in = True, ai_active = True,
                      ai_last_used = None, ai_total_req = 0, ai_error_msg = None\<rparr>) pool, Suc w))\<rparr>"


definition test_file :: "string list" where
  "test_file =
     [''alice:tok1:csrf1'' @ [CHR 0x0A],
      [CHR 0x0A],
      ''broken:line'' @ [CHR 0x0A],
      ''   '' @ [CHR 0x0A],
      '' bob:tok2:csrf2 '' @ [CHR 0x0A],
      ''a:b:c:d'' @ [CHR 0x0A],
      ''alice:tok3:csrf3'']"


section \<open>Lemmas on get_followers.py\<close>

subsection \<open>One target\<close>

lemma failure_fst:
  "fst (failure env u e w evs) =
     [(''username'', PStr u), (''display_name'', PStr ''N/A''), (''total_followers'', PInt 0),
      (''fetched_count'', PInt 0), (''timestamp'', PStr (dt_iso (fst (now env w)))),
      (''status'', PStr (''error: '' @ e)), (''json_file'', PNone), (''csv_file'', PNone)]"
  by (simp add: failure_def split: prod.splits)

lemma failure_events: "snd (snd (failure env u e w evs)) = evs"
  by (simp add: failure_def split: prod.splits)

lemma save_results_keys: "keys (fst (save_results env u ts user fs w evs)) = summary_keys"
  by (simp add: save_results_def keys_def summary_keys_def Let_def split: prod.splits)

lemma save_results_username:
  "getitem (fst (save_results env u ts user fs w evs)) ''username'' = Some (PStr u)"
  by (simp add: save_results_def getitem_def Let_def split: prod.splits)

lemma save_results_status:
  "getitem (fst (save_results env u ts user fs w evs)) ''status'' = Some (PStr ''success'')"
  by (simp add: save_results_def getitem_def Let_def split: prod.splits)

lemma failure_keys: "keys (fst (failure env u e w evs)) = summary_keys"
  by (simp add: failure_fst keys_def summary_keys_def)

lemma failure_username: "getitem (fst (failure env u e w evs)) ''username'' = Some (PStr u)"
  by (simp add: failure_fst getitem_def)

lemma failure_status:
  "getitem (fst (failure env u e w evs)) ''status'' = Some (PStr (''error: '' @ e))"
  by (simp add: failure_fst getitem_def)

lemma get_followers_keys:
  "keys (fst (get_followers env u limit ts px w)) = summary_keys"
  by (simp add: get_followers_def Let_def failure_keys save_results_keys
        split: prod.splits sum.splits option.splits)

lemma get_followers_username:
  "getitem (fst (get_followers env u limit ts px w)) ''username'' = Some (PStr u)"
  by (simp add: get_followers_def Let_def failure_username save_results_username
        split: prod.splits sum.splits option.splits)

lemma get_followers_status:
  "getitem (fst (get_followers env u limit ts px w)) ''status'' =
     Some (PStr (expected_status env u limit px w))"
  by (simp add: get_followers_def expected_status_def Let_def failure_status save_results_status
        split: prod.splits sum.splits option.splits)

lemma loop_results:
  "get_followers_loop env i n us limit ts px acc w = (rs, w', evs) \<Longrightarrow>
     \<exists>new. rs = acc @ new \<and> length new = length us \<and>
       (\<forall>k<length us. \<exists>wk. new ! k = fst (get_followers env (us ! k) limit ts px wk))"
proof (induction us arbitrary: i acc w rs w' evs)
  case Nil
  then show ?case by simp
next
  case (Cons u us)
  obtain r w1 evs1 where g: "get_followers env u limit ts px w = (r, w1, evs1)"
    by (cases "get_followers env u limit ts px w") auto
  define w2 where "w2 = (if i < n then sleep env 2 w1 else w1)"
  obtain rs' w3 evs3 where l:
    "get_followers_loop env (i + 1) n us limit ts px (acc @ [r]) w2 = (rs', w3, evs3)"
    by (cases "get_followers_loop env (i + 1) n us limit ts px (acc @ [r]) w2") auto
  from Cons.prems g l have rs: "rs = rs'"
    by (simp add: w2_def split: if_splits)
  from Cons.IH [OF l] obtain new where new: "rs' = (acc @ [r]) @ new" "length new = length us"
    "\<forall>k<length us. \<exists>wk. new ! k = fst (get_followers env (us ! k) limit ts px wk)"
    by blast
  have "\<forall>k<length (u # us). \<exists>wk. (r # new) ! k = fst (get_followers env ((u # us) ! k) limit ts px wk)"
  proof (intro allI impI)
    fix k assume k: "k < length (u # us)"
    show "\<exists>wk. (r # new) ! k = fst (get_followers env ((u # us) ! k) limit ts px wk)"
    proof (cases k)
      case 0
      with g show ?thesis by (intro exI [of _ w]) simp
    next
      case (Suc j)
      with k new(3) show ?thesis by simp
    qed
  qed
  with new rs show ?case
    by (intro exI [of _ "r # new"]) simp
qed

lemma intersperse_Cons: "xs \<noteq> [] \<Longrightarrow> intersperse s (x # xs) = x # s # intersperse s xs"
  by (cases xs) auto

lemma save_results_events:
  "\<exists>json_file output_data csv_file.
     snd (snd (save_results env u ts user fs w evs)) =
       evs @ [WriteJson json_file output_data] @
         (if fs = [] then [] else [WriteCsv csv_file (keys (follower_data 1 (hd fs))) (process_followers 1 fs)]) \<and>
     getitem output_data ''followers'' = Some (PList (map PDict (process_followers 1 fs))) \<and>
     getitem output_data ''fetched_count'' = Some (PInt (int (length fs))) \<and>
     getitem (fst (save_results env u ts user fs w evs)) ''json_file'' = Some (PStr json_file) \<and>
     getitem (fst (save_results env u ts user fs w evs)) ''csv_file'' = Some (PStr csv_file)"
  by (cases fs) (simp_all add: save_results_def getitem_def Let_def split: prod.splits)

lemma get_followers_events_cases:
  "snd (snd (get_followers env u limit ts px w)) = [Lookup u] \<or>
   (\<exists>uid. snd (snd (get_followers env u limit ts px w)) = [Lookup u, Fetch uid (fetch_limit limit)]) \<or>
   (\<exists>uid f d. snd (snd (get_followers env u limit ts px w)) =
       [Lookup u, Fetch uid (fetch_limit limit), WriteJson f d]) \<or>
   (\<exists>uid f d c h rows. snd (snd (get_followers env u limit ts px w)) =
       [Lookup u, Fetch uid (fetch_limit limit), WriteJson f d, WriteCsv c h rows])"
proof -
  have sr: "\<And>user fs w2. 
     (\<exists>f d. snd (snd (save_results env u ts user fs w2 [Lookup u, Fetch (u_id user) (fetch_limit limit)])) =
        [Lookup u, Fetch (u_id user) (fetch_limit limit), WriteJson f d]) \<or>
     (\<exists>f d c h rows. snd (snd (save_results env u ts user fs w2 [Lookup u, Fetch (u_id user) (fetch_limit limit)])) =
        [Lookup u, Fetch (u_id user) (fetch_limit limit), WriteJson f d, WriteCsv c h rows])"
  proof -
    fix user fs w2
    from save_results_events [of env u ts user fs w2 "[Lookup u, Fetch (u_id user) (fetch_limit limit)]"]
    show "?thesis user fs w2" by (cases "fs = []") auto
  qed
  show ?thesis
  proof (cases "user_by_login env (api_proxy env px) u w")
    case (Pair res w1)
    show ?thesis
    proof (cases res)
      case (Inl e)
      with Pair show ?thesis by (simp add: get_followers_def failure_events)
    next
      case (Inr uo)
      show ?thesis
      proof (cases uo)
        case None
        with Pair Inr show ?thesis by (simp add: get_followers_def failure_events)
      next
        case (Some user)
        show ?thesis
        proof (cases "followers env (api_proxy env px) (u_id user) (fetch_limit limit) w1")
          case (Pair res2 w2)
          note P2 = this
          show ?thesis
          proof (cases res2)
            case (Inl e)
            with \<open>user_by_login env (api_proxy env px) u w = (res, w1)\<close> Inr Some P2
            show ?thesis by (simp add: get_followers_def failure_events)
          next
            case (Inr fs)
            with \<open>user_by_login env (api_proxy env px) u w = (res, w1)\<close> \<open>res = Inr uo\<close> Some P2
            have "snd (snd (get_followers env u limit ts px w)) =
               snd (snd (save_results env u ts user fs w2 [Lookup u, Fetch (u_id user) (fetch_limit limit)]))"
              by (simp add: get_followers_def)
            with sr [of user fs w2] show ?thesis by metis
          qed
        qed
      qed
    qed
  qed
qed

lemma get_followers_no_sleep: "filter is_sleep (snd (snd (get_followers env u limit ts px w))) = []"
  using get_followers_events_cases [of env u limit ts px w] by auto

lemma get_followers_no_summary_write:
  "filter is_summary_write (snd (snd (get_followers env u limit ts px w))) = []"
  using get_followers_events_cases [of env u limit ts px w] by auto

lemma get_followers_fetch_cap:
  "Fetch uid cap \<in> set (snd (snd (get_followers env u limit ts px w))) \<Longrightarrow> cap = fetch_limit limit"
  using get_followers_events_cases [of env u limit ts px w] by auto

lemma loop_events:
  "n + 1 = i + length us \<Longrightarrow>
   get_followers_loop env i n us limit ts px acc w = (rs, w', evs) \<Longrightarrow>
     \<exists>segs. length segs = length us \<and> evs = concat (intersperse [Sleep 2] segs) \<and>
       (\<forall>k<length us. \<exists>wk. segs ! k = snd (snd (get_followers env (us ! k) limit ts px wk)))"
proof (induction us arbitrary: i acc w rs w' evs)
  case Nil
  then show ?case by simp
next
  case (Cons u us)
  obtain r w1 evs1 where g: "get_followers env u limit ts px w = (r, w1, evs1)"
    by (cases "get_followers env u limit ts px w") auto
  define w2 where "w2 = (if i < n then sleep env 2 w1 else w1)"
  obtain rs' w3 evs3 where l:
    "get_followers_loop env (i + 1) n us limit ts px (acc @ [r]) w2 = (rs', w3, evs3)"
    by (cases "get_followers_loop env (i + 1) n us limit ts px (acc @ [r]) w2") auto
  from Cons.prems(1) have n: "n + 1 = (i + 1) + length us" and lt: "i < n \<longleftrightarrow> us \<noteq> []"
    by auto
  from Cons.prems(2) g l have evs: "evs = evs1 @ (if us \<noteq> [] then [Sleep 2] else []) @ evs3"
    by (simp add: w2_def lt split: if_splits)
  from Cons.IH [OF n l] obtain segs where segs: "length segs = length us"
    "evs3 = concat (intersperse [Sleep 2] segs)"
    "\<forall>k<length us. \<exists>wk. segs ! k = snd (snd (get_followers env (us ! k) limit ts px wk))"
    by blast
  have "\<forall>k<length (u # us). \<exists>wk. (evs1 # segs) ! k = snd (snd (get_followers env ((u # us) ! k) limit ts px wk))"
  proof (intro allI impI)
    fix k assume k: "k < length (u # us)"
    show "\<exists>wk. (evs1 # segs) ! k = snd (snd (get_followers env ((u # us) ! k) limit ts px wk))"
    proof (cases k)
      case 0
      with g show ?thesis by (intro exI [of _ w]) simp
    next
      case (Suc j)
      with k segs(3) show ?thesis by simp
    qed
  qed
  moreover have "evs = concat (intersperse [Sleep 2] (evs1 # segs))"
  proof (cases "us = []")
    case True
    with segs evs show ?thesis by simp
  next
    case False
    with segs(1) have "segs \<noteq> []" by auto
    with False segs(2) evs show ?thesis by (simp add: intersperse_Cons)
  qed
  ultimately show ?case using segs(1)
    by (intro exI [of _ "evs1 # segs"]) simp
qed

lemma set_concat_intersperse:
  "e \<in> set (concat (intersperse s segs)) \<Longrightarrow> e \<in> set s \<or> (\<exists>k<length segs. e \<in> set (segs ! k))"
proof (induction s segs rule: intersperse.induct)
  case (1 s)
  then show ?case by simp
next
  case (2 s x)
  then show ?case by simp
next
  case (3 s x y ys)
  from "3.prems" consider "e \<in> set x" | "e \<in> set s" | "e \<in> set (concat (intersperse s (y # ys)))"
    by auto
  then show ?case
  proof cases
    case 1
    then have "0 < length (x # y # ys) \<and> e \<in> set ((x # y # ys) ! 0)" by simp
    then show ?thesis by blast
  next
    case 2
    then show ?thesis by simp
  next
    case 3
    with "3.IH" consider "e \<in> set s" | k where "k < length (y # ys)" "e \<in> set ((y # ys) ! k)"
      by blast
    then show ?thesis
    proof cases
      case 1
      then show ?thesis by simp
    next
      case 2
      then have "Suc k < length (x # y # ys) \<and> e \<in> set ((x # y # ys) ! Suc k)" by simp
      then show ?thesis by blast
    qed
  qed
qed

lemma filter_concat_intersperse:
  "\<forall>seg\<in>set segs. filter P seg = [] \<Longrightarrow>
     filter P (concat (intersperse s segs)) = concat (replicate (length segs - 1) (filter P s))"
  by (induction s segs rule: intersperse.induct) simp_all

lemma loop_fetch_cap:
  assumes "Fetch uid cap \<in> set (snd (snd (get_followers_loop env 1 (length us) us limit ts px [] w)))"
  shows "cap = fetch_limit limit"
proof -
  obtain rs w' evs where l: "get_followers_loop env 1 (length us) us limit ts px [] w = (rs, w', evs)"
    by (cases "get_followers_loop env 1 (length us) us limit ts px [] w") auto
  with assms have mem: "Fetch uid cap \<in> set evs" by simp
  from loop_events [OF _ l] obtain segs where segs: "length segs = length us"
    "evs = concat (intersperse [Sleep 2] segs)"
    "\<forall>k<length us. \<exists>wk. segs ! k = snd (snd (get_followers env (us ! k) limit ts px wk))"
    by auto
  from mem segs(2) set_concat_intersperse [of "Fetch uid cap" "[Sleep 2]" segs]
  obtain k where "k < length segs" "Fetch uid cap \<in> set (segs ! k)" by auto
  with segs(1,3) get_followers_fetch_cap show ?thesis by metis
qed

lemma loop_no_summary_write:
  "filter is_summary_write (snd (snd (get_followers_loop env 1 (length us) us limit ts px [] w))) = []"
proof -
  obtain rs w' evs where l: "get_followers_loop env 1 (length us) us limit ts px [] w = (rs, w', evs)"
    by (cases "get_followers_loop env 1 (length us) us limit ts px [] w") auto
  from loop_events [OF _ l] obtain segs where segs: "length segs = length us"
    "evs = concat (intersperse [Sleep 2] segs)"
    "\<forall>k<length us. \<exists>wk. segs ! k = snd (snd (get_followers env (us ! k) limit ts px wk))"
    by auto
  have "\<forall>seg\<in>set segs. filter is_summary_write seg = []"
  proof
    fix seg assume "seg \<in> set segs"
    then obtain k where "k < length segs" "seg = segs ! k" by (auto simp: in_set_conv_nth)
    with segs(1,3) get_followers_no_summary_write show "filter is_summary_write seg = []" by metis
  qed
  from filter_concat_intersperse [OF this, of "[Sleep 2]"] segs(2) l show ?thesis by simp
qed

lemma loop_sleeps:
  "filter is_sleep (snd (snd (get_followers_loop env 1 (length us) us limit ts px [] w))) =
     replicate (length us - 1) (Sleep 2)"
proof -
  obtain rs w' evs where l: "get_followers_loop env 1 (length us) us limit ts px [] w = (rs, w', evs)"
    by (cases "get_followers_loop env 1 (length us) us limit ts px [] w") auto
  from loop_events [OF _ l] obtain segs where segs: "length segs = length us"
    "evs = concat (intersperse [Sleep 2] segs)"
    "\<forall>k<length us. \<exists>wk. segs ! k = snd (snd (get_followers env (us ! k) limit ts px wk))"
    by auto
  have "\<forall>seg\<in>set segs. filter is_sleep seg = []"
  proof
    fix seg assume "seg \<in> set segs"
    then obtain k where "k < length segs" "seg = segs ! k" by (auto simp: in_set_conv_nth)
    with segs(1,3) get_followers_no_sleep show "filter is_sleep seg = []" by metis
  qed
  from filter_concat_intersperse [OF this, of "[Sleep 2]"] segs(1,2) have
    "filter is_sleep evs = concat (replicate (length us - 1) [Sleep 2])" by simp
  also have "\<dots> = replicate (length us - 1) (Sleep 2)"
    by (induction "length us - 1") simp_all
  finally show ?thesis using l by simp
qed

lemma loop_usernames:
  "map (\<lambda>r. getitem r ''username'') (fst (get_followers_loop env i n us limit ts px [] w)) =
     map (\<lambda>u. Some (PStr u)) us"
proof -
  obtain rs w' evs where l: "get_followers_loop env i n us limit ts px [] w = (rs, w', evs)"
    by (cases "get_followers_loop env i n us limit ts px [] w") auto
  from loop_results [OF l] obtain new where new: "rs = new" "length new = length us"
    "\<forall>k<length us. \<exists>wk. new ! k = fst (get_followers env (us ! k) limit ts px wk)" by auto
  have "map (\<lambda>r. getitem r ''username'') rs = map (\<lambda>u. Some (PStr u)) us"
  proof (rule nth_equalityI)
    show "length (map (\<lambda>r. getitem r ''username'') rs) = length (map (\<lambda>u. Some (PStr u)) us)"
      using new by simp
  next
    fix k assume "k < length (map (\<lambda>r. getitem r ''username'') rs)"
    with new have k: "k < length us" by simp
    with new(3) obtain wk where "new ! k = fst (get_followers env (us ! k) limit ts px wk)" by blast
    with k new(1,2) show "map (\<lambda>r. getitem r ''username'') rs ! k = map (\<lambda>u. Some (PStr u)) us ! k"
      by (simp add: get_followers_username)
  qed
  with l show ?thesis by simp
qed

lemma multiple_nonempty:
  assumes "us \<noteq> []"
  shows "\<exists>w' file.
     get_followers_multiple env us limit ts px w =
       (Inr (fst (get_followers_loop env 1 (length us) us limit ts px [] w)), w',
        snd (snd (get_followers_loop env 1 (length us) us limit ts px [] w))
          @ [WriteSummary file summary_keys (fst (get_followers_loop env 1 (length us) us limit ts px [] w))])"
proof -
  obtain rs w1 evs where l: "get_followers_loop env 1 (length us) us limit ts px [] w = (rs, w1, evs)"
    by (cases "get_followers_loop env 1 (length us) us limit ts px [] w") auto
  from loop_results [OF l] obtain new where new: "rs = new" "length new = length us"
    "\<forall>k<length us. \<exists>wk. new ! k = fst (get_followers env (us ! k) limit ts px wk)" by auto
  from assms new obtain r rest where rs: "rs = r # rest" by (cases rs) auto
  from assms new(3) obtain wk where "new ! 0 = fst (get_followers env (us ! 0) limit ts px wk)"
    by auto
  with new(1) rs have "r = fst (get_followers env (us ! 0) limit ts px wk)" by auto
  then have "keys r = summary_keys" by (simp add: get_followers_keys)
  with l rs show ?thesis
    by (simp add: get_followers_multiple_def Let_def split: prod.splits)
qed

lemma main_single:
  "cli_usernames c = [u] \<Longrightarrow>
     main env c w =
       (let (result, w', evs) =
              get_followers env u (case cli_limit c of None \<Rightarrow> 0 | Some l \<Rightarrow> l)
                (cli_timestamp c) (cli_proxy c) w
        in (Inr [result], w', evs))"
  by (simp add: main_def parse_args_def)

lemma main_batch:
  "2 \<le> length (cli_usernames c) \<Longrightarrow>
     main env c w =
       get_followers_multiple env (cli_usernames c) (case cli_limit c of None \<Rightarrow> 0 | Some l \<Rightarrow> l)
         (cli_timestamp c) (cli_proxy c) w"
  by (auto simp: main_def parse_args_def)

lemma loop_results_at:
  "get_followers_loop env i n us limit ts px acc w = (rs, w', evs) \<Longrightarrow>
     \<exists>new. rs = acc @ new \<and> length new = length us \<and>
       (\<forall>k<length us. new ! k =
           fst (get_followers env (us ! k) limit ts px (target_start env i n us limit ts px w k)))"
proof (induction us arbitrary: i acc w rs w' evs)
  case Nil
  then show ?case by simp
next
  case (Cons u us)
  obtain r w1 evs1 where g: "get_followers env u limit ts px w = (r, w1, evs1)"
    by (cases "get_followers env u limit ts px w") auto
  define w2 where "w2 = (if i < n then sleep env 2 w1 else w1)"
  obtain rs' w3 evs3 where l:
    "get_followers_loop env (i + 1) n us limit ts px (acc @ [r]) w2 = (rs', w3, evs3)"
    by (cases "get_followers_loop env (i + 1) n us limit ts px (acc @ [r]) w2") auto
  from Cons.prems g l have rs: "rs = rs'"
    by (simp add: w2_def split: if_splits)
  from Cons.IH [OF l] obtain new where new: "rs' = (acc @ [r]) @ new" "length new = length us"
    "\<forall>k<length us. new ! k =
        fst (get_followers env (us ! k) limit ts px (target_start env (i + 1) n us limit ts px w2 k))"
    by blast
  have "(r # new) ! k =
      fst (get_followers env ((u # us) ! k) limit ts px (target_start env i n (u # us) limit ts px w k))"
    if k: "k < length (u # us)" for k
  proof (cases k)
    case 0
    with g show ?thesis by simp
  next
    case (Suc j)
    with k new(3) g show ?thesis by (simp add: w2_def)
  qed
  with new rs show ?case
    by (intro exI [of _ "r # new"]) simp
qed

lemma multiple_last:
  "\<exists>last. snd (snd (get_followers_multiple env us limit ts px w)) =
       snd (snd (get_followers_loop env 1 (length us) us limit ts px [] w)) @ [last] \<and>
     \<not> is_sleep last"
proof -
  obtain rs w1 evs where l: "get_followers_loop env 1 (length us) us limit ts px [] w = (rs, w1, evs)"
    by (cases "get_followers_loop env 1 (length us) us limit ts px [] w") auto
  obtain tstr w2 where t:
    "(if ts then (let (t, w') = now env w1 in (''_'' @ dt_stamp t, w')) else ([], w1)) = (tstr, w2)"
    by (cases "(if ts then (let (t, w') = now env w1 in (''_'' @ dt_stamp t, w')) else ([], w1))") auto
  show ?thesis
  proof (cases rs)
    case Nil
    with l t have "snd (snd (get_followers_multiple env us limit ts px w)) =
       evs @ [CreateEmpty (''followers_summary'' @ tstr @ ''.csv'')]"
      by (simp add: get_followers_multiple_def del: append.simps)
    with l show ?thesis by simp
  next
    case (Cons r rest)
    with l t have "snd (snd (get_followers_multiple env us limit ts px w)) =
       evs @ [WriteSummary (''followers_summary'' @ tstr @ ''.csv'') (keys r) rs]"
      by (simp add: get_followers_multiple_def del: append.simps)
    with l show ?thesis by simp
  qed
qed

lemma process_followers_length: "length (process_followers i fs) = length fs"
  by (induction fs arbitrary: i) simp_all

lemma process_followers_nth:
  "k < length fs \<Longrightarrow> process_followers i fs ! k = follower_data (i + int k) (fs ! k)"
proof (induction fs arbitrary: i k)
  case Nil
  then show ?case by simp
next
  case (Cons f fs)
  show ?case
  proof (cases k)
    case 0
    then show ?thesis by simp
  next
    case (Suc j)
    with Cons.prems have "j < length fs" by simp
    from Cons.IH [OF this, of "i + 1"] Suc show ?thesis by (simp add: add.assoc)
  qed
qed

lemma process_followers_ranks:
  "map (\<lambda>d. getitem d ''rank'') (process_followers i fs) =
     map (\<lambda>j. Some (PInt j)) [i..i + int (length fs) - 1]"
proof (induction fs arbitrary: i)
  case Nil
  then show ?case by simp
next
  case (Cons f fs)
  have "[i..i + int (length (f # fs)) - 1] = i # [i + 1..(i + 1) + int (length fs) - 1]"
    by (simp add: upto_rec1 add.commute add.left_commute)
  with Cons.IH [of "i + 1"] show ?case
    by (simp add: follower_data_def getitem_def)
qed

lemma get_followers_paths:
  "(\<exists>d t c s jf cf.
      fst (get_followers env u limit ts px w) =
        [(''username'', PStr u), (''display_name'', PStr d), (''total_followers'', PInt t),
         (''fetched_count'', PInt c), (''timestamp'', PStr s), (''status'', PStr ''success''),
         (''json_file'', PStr jf), (''csv_file'', PStr cf)] \<and> 0 \<le> c) \<or>
   (\<exists>s reason.
      fst (get_followers env u limit ts px w) =
        [(''username'', PStr u), (''display_name'', PStr ''N/A''), (''total_followers'', PInt 0),
         (''fetched_count'', PInt 0), (''timestamp'', PStr s),
         (''status'', PStr (''error: '' @ reason)),
         (''json_file'', PNone), (''csv_file'', PNone)])"
  by (simp add: get_followers_def failure_fst save_results_def Let_def
        split: prod.splits sum.splits option.splits)

lemma api_proxy_followers_update: "api_proxy (env\<lparr>followers := f\<rparr>) px = api_proxy env px"
  by (simp add: api_proxy_def)

lemma failure_followers_update: "failure (env\<lparr>followers := f\<rparr>) u e w evs = failure env u e w evs"
  by (simp add: failure_def)

lemma save_results_followers_update:
  "save_results (env\<lparr>followers := f\<rparr>) u ts user fs w evs = save_results env u ts user fs w evs"
  by (simp add: save_results_def)

lemma get_followers_found:
  assumes "user_by_login env (api_proxy env px) u w = (Inr (Some user), w1)"
  shows "get_followers env u limit ts px w =
     (case followers env (api_proxy env px) (u_id user) (fetch_limit limit) w1 of
        (Inl e, w2) \<Rightarrow>
          failure env u e w2 [Lookup u, Fetch (u_id user) (fetch_limit limit)]
      | (Inr fs, w2) \<Rightarrow>
          save_results env u ts user fs w2 [Lookup u, Fetch (u_id user) (fetch_limit limit)])"
  using assms by (simp add: get_followers_def)

lemma get_followers_fetched:
  assumes "user_by_login env (api_proxy env px) u w = (Inr (Some user), w1)"
    and "followers env (api_proxy env px) (u_id user) (fetch_limit limit) w1 = (Inr fs, w2)"
  shows "getitem (fst (get_followers env u limit ts px w)) ''status'' = Some (PStr ''success'') \<and>
     getitem (fst (get_followers env u limit ts px w)) ''fetched_count'' =
       Some (PInt (int (length fs))) \<and>
     (\<exists>json_file output_data.
        snd (snd (get_followers env u limit ts px w)) ! 2 = WriteJson json_file output_data \<and>
        getitem output_data ''followers'' = Some (PList (map PDict (process_followers 1 fs))) \<and>
        getitem output_data ''fetched_count'' = Some (PInt (int (length fs))))"
proof -
  let ?evs = "[Lookup u, Fetch (u_id user) (fetch_limit limit)]"
  from assms have g: "get_followers env u limit ts px w = save_results env u ts user fs w2 ?evs"
    by (simp add: get_followers_def)
  from save_results_events [of env u ts user fs w2 ?evs]
  obtain json_file output_data rest where
    "snd (snd (save_results env u ts user fs w2 ?evs)) = ?evs @ [WriteJson json_file output_data] @ rest"
    "getitem output_data ''followers'' = Some (PList (map PDict (process_followers 1 fs)))"
    "getitem output_data ''fetched_count'' = Some (PInt (int (length fs)))"
    by blast
  moreover have "getitem (fst (save_results env u ts user fs w2 ?evs)) ''fetched_count'' =
      Some (PInt (int (length fs)))"
    by (simp add: save_results_def getitem_def Let_def split: prod.splits)
  ultimately show ?thesis using g by (simp add: save_results_status numeral_2_eq_2)
qed

lemma get_followers_fetch_event:
  assumes "user_by_login env (api_proxy env px) u w = (Inr (Some user), w1)"
  shows "take 2 (snd (snd (get_followers env u limit ts px w))) =
     [Lookup u, Fetch (u_id user) (fetch_limit limit)]"
proof (cases "followers env (api_proxy env px) (u_id user) (fetch_limit limit) w1")
  case (Pair res w2)
  show ?thesis
  proof (cases res)
    case (Inl e)
    with Pair assms show ?thesis
      by (simp add: get_followers_found failure_events)
  next
    case (Inr fs)
    from save_results_events [of env u ts user fs w2 "[Lookup u, Fetch (u_id user) (fetch_limit limit)]"]
    obtain rest where "snd (snd (save_results env u ts user fs w2
        [Lookup u, Fetch (u_id user) (fetch_limit limit)])) =
        [Lookup u, Fetch (u_id user) (fetch_limit limit)] @ rest" by auto
    with Pair Inr assms show ?thesis
      by (simp add: get_followers_found)
  qed
qed

lemma get_followers_one_fetch:
  assumes "user_by_login env (api_proxy env px) u w = (Inr (Some user), w1)"
  shows "filter is_fetch (snd (snd (get_followers env u limit ts px w))) =
     [Fetch (u_id user) (fetch_limit limit)]"
  using get_followers_fetch_event [OF assms, of limit ts]
    get_followers_events_cases [of env u limit ts px w]
  by auto

text \<open>The definitions a concrete run of the test environment unfolds.\<close>

lemmas test_simps = test_env_def get_followers_def api_proxy_def failure_def save_results_def
  fetch_limit_def mk_user_def alice_followers_def follower_data_def getitem_def keys_def
  none_displayname_def

section \<open>Properties of get_followers.py\<close>

text \<open>
  C1 (batch failure isolation). For every list of targets and every environment, whatever
  the lookups and the fetches raise: the loop of the batch yields exactly one summary per
  target; the \<open>k\<close>-th summary is the one \<open>get_followers\<close> returns for the \<open>k\<close>-th target in
  the world in which that target's turn starts; it carries that target's name and its
  status is \<open>expected_status\<close> there, that is \<open>success\<close>, or \<open>error: \<close> and the text of the
  exception that very target raised. On a list that is not empty the batch returns
  exactly these summaries.
\<close>

theorem batch_failure_isolation:
  "length (fst (get_followers_loop env 1 (length usernames) usernames limit ts px [] w))
     = length usernames \<and>
   (\<forall>k<length usernames.
      fst (get_followers_loop env 1 (length usernames) usernames limit ts px [] w) ! k =
        fst (get_followers env (usernames ! k) limit ts px
               (target_start env 1 (length usernames) usernames limit ts px w k)) \<and>
      getitem (fst (get_followers_loop env 1 (length usernames) usernames limit ts px [] w) ! k)
          ''username'' = Some (PStr (usernames ! k)) \<and>
      getitem (fst (get_followers_loop env 1 (length usernames) usernames limit ts px [] w) ! k)
          ''status'' =
        Some (PStr (expected_status env (usernames ! k) limit px
               (target_start env 1 (length usernames) usernames limit ts px w k)))) \<and>
   (usernames \<noteq> [] \<longrightarrow>
      fst (get_followers_multiple env usernames limit ts px w) =
        Inr (fst (get_followers_loop env 1 (length usernames) usernames limit ts px [] w)))"
proof -
  obtain rs w' evs where l:
    "get_followers_loop env 1 (length usernames) usernames limit ts px [] w = (rs, w', evs)"
    by (cases "get_followers_loop env 1 (length usernames) usernames limit ts px [] w") auto
  from loop_results_at [OF l] have len: "length rs = length usernames"
    and nth: "\<forall>k<length usernames. rs ! k =
        fst (get_followers env (usernames ! k) limit ts px
               (target_start env 1 (length usernames) usernames limit ts px w k))"
    by auto
  have m: "usernames \<noteq> [] \<longrightarrow> fst (get_followers_multiple env usernames limit ts px w) = Inr rs"
  proof
    assume "usernames \<noteq> []"
    from multiple_nonempty [OF this, of env limit ts px w] l show
      "fst (get_followers_multiple env usernames limit ts px w) = Inr rs" by auto
  qed
  from len nth m l show ?thesis
    by (simp add: get_followers_username get_followers_status)
qed

theorem batch_failure_isolation_witness:
  "map (\<lambda>r. getitem r ''status'')
      (fst (get_followers_loop test_env 1 (length test_targets) test_targets 0 False False [] 0)) =
     [Some (PStr ''success''), Some (PStr ''error: User not found''), Some (PStr ''success'')] \<and>
   getitem (fst (get_followers_loop test_env 1 (length test_targets) test_targets 0 False False [] 0) ! 1)
      ''username'' = Some (PStr (test_targets ! 1)) \<and>
   length (fst (get_followers_loop test_env 1 (length test_targets) test_targets 0 False False [] 0)) = 3 \<and>
   fst (get_followers_multiple test_env test_targets 0 False False 0) =
     Inr (fst (get_followers_loop test_env 1 (length test_targets) test_targets 0 False False [] 0))"
proof -
  note T = batch_failure_isolation [of test_env test_targets 0 False False 0]
  have run: "map (\<lambda>r. getitem r ''status'')
      (fst (get_followers_loop test_env 1 (length test_targets) test_targets 0 False False [] 0)) =
     [Some (PStr ''success''), Some (PStr ''error: User not found''), Some (PStr ''success'')]"
    by (simp add: test_targets_def test_simps Let_def)
  have k: "1 < length test_targets" and ne: "test_targets \<noteq> []"
    by (simp_all add: test_targets_def)
  from T have len:
    "length (fst (get_followers_loop test_env 1 (length test_targets) test_targets 0 False False [] 0)) = 3"
    by (simp add: test_targets_def del: get_followers_loop.simps)
  from T [THEN conjunct2, THEN conjunct1, THEN spec, THEN mp, OF k]
  have name: "getitem (fst (get_followers_loop test_env 1 (length test_targets) test_targets 0 False False [] 0) ! 1)
      ''username'' = Some (PStr (test_targets ! 1))"
    by (rule conjunct2 [THEN conjunct1])
  from T [THEN conjunct2, THEN conjunct2, THEN mp, OF ne] run len name show ?thesis
    by blast
qed

text \<open>
  C2 (limit semantics). For a target the lookup finds, the collection sends exactly one
  request to the platform's collector, for that target, and its cap is absent if
  \<open>limit \<le> 0\<close> and is \<open>limit\<close> if \<open>limit > 0\<close>. The collection depends on the collector
  through its answer to this very request only: a collector that answers it alike gives
  the same collection, whatever it answers under another cap. The items collected are
  the items of that answer, all of them and in its order. So with a collector that keeps
  its contract (\<open>collected\<close>: every item without a cap, the first \<open>l\<close> under the cap \<open>l\<close>) the
  collection fetches all the \<open>n\<close> followers if \<open>limit \<le> 0\<close>, and the first \<open>limit\<close> of them,
  \<open>min limit n\<close> in number, if \<open>limit > 0\<close>.
\<close>

theorem limit_semantics:
  assumes "user_by_login env (api_proxy env px) u w = (Inr (Some user), w1)"
  shows
   "take 2 (snd (snd (get_followers env u limit ts px w))) =
      [Lookup u, Fetch (u_id user) (if limit \<le> 0 then None else Some limit)] \<and>
    filter is_fetch (snd (snd (get_followers env u limit ts px w))) =
      [Fetch (u_id user) (if limit \<le> 0 then None else Some limit)] \<and>
    (\<forall>f. f (api_proxy env px) (u_id user) (if limit \<le> 0 then None else Some limit) w1 =
           followers env (api_proxy env px) (u_id user) (if limit \<le> 0 then None else Some limit) w1
         \<longrightarrow> get_followers (env\<lparr>followers := f\<rparr>) u limit ts px w =
               get_followers env u limit ts px w) \<and>
    (\<forall>fs w2.
       followers env (api_proxy env px) (u_id user) (if limit \<le> 0 then None else Some limit) w1 =
         (Inr fs, w2) \<longrightarrow>
       getitem (fst (get_followers env u limit ts px w)) ''status'' = Some (PStr ''success'') \<and>
       getitem (fst (get_followers env u limit ts px w)) ''fetched_count'' =
         Some (PInt (int (length fs))) \<and>
       (\<exists>json_file output_data.
          snd (snd (get_followers env u limit ts px w)) ! 2 = WriteJson json_file output_data \<and>
          getitem output_data ''followers'' = Some (PList (map PDict (process_followers 1 fs))))) \<and>
    (\<forall>items.
       (\<forall>cap. fst (followers env (api_proxy env px) (u_id user) cap w1) = Inr (collected items cap))
       \<longrightarrow>
       getitem (fst (get_followers env u limit ts px w)) ''status'' = Some (PStr ''success'') \<and>
       getitem (fst (get_followers env u limit ts px w)) ''fetched_count'' =
         Some (PInt (if limit \<le> 0 then int (length items) else min limit (int (length items)))) \<and>
       (\<exists>json_file output_data.
          snd (snd (get_followers env u limit ts px w)) ! 2 = WriteJson json_file output_data \<and>
          getitem output_data ''followers'' =
            Some (PList (map PDict (process_followers 1
               (if limit \<le> 0 then items else take (nat limit) items))))))"
proof -
  let ?cap = "if limit \<le> 0 then None else Some limit"
  have cap: "fetch_limit limit = ?cap" by (simp add: fetch_limit_def)
  have ev: "take 2 (snd (snd (get_followers env u limit ts px w))) = [Lookup u, Fetch (u_id user) ?cap]"
    using get_followers_fetch_event [OF assms, of limit ts] by (simp only: cap)
  have caps: "filter is_fetch (snd (snd (get_followers env u limit ts px w))) =
      [Fetch (u_id user) ?cap]"
    using get_followers_one_fetch [OF assms, of limit ts] by (simp only: cap)
  have ext: "get_followers (env\<lparr>followers := f\<rparr>) u limit ts px w = get_followers env u limit ts px w"
    if "f (api_proxy env px) (u_id user) ?cap w1 = followers env (api_proxy env px) (u_id user) ?cap w1"
    for f
  proof -
    from assms have "user_by_login (env\<lparr>followers := f\<rparr>) (api_proxy (env\<lparr>followers := f\<rparr>) px) u w =
        (Inr (Some user), w1)"
      by (simp add: api_proxy_followers_update)
    then have l: "get_followers (env\<lparr>followers := f\<rparr>) u limit ts px w =
       (case f (api_proxy env px) (u_id user) (fetch_limit limit) w1 of
          (Inl e, w2) \<Rightarrow>
            failure (env\<lparr>followers := f\<rparr>) u e w2 [Lookup u, Fetch (u_id user) (fetch_limit limit)]
        | (Inr fs, w2) \<Rightarrow>
            save_results (env\<lparr>followers := f\<rparr>) u ts user fs w2
              [Lookup u, Fetch (u_id user) (fetch_limit limit)])"
      using get_followers_found [of "env\<lparr>followers := f\<rparr>" px u w user w1 limit ts]
      by (simp add: api_proxy_followers_update)
    from that have e: "f (api_proxy env px) (u_id user) (fetch_limit limit) w1 =
        followers env (api_proxy env px) (u_id user) (fetch_limit limit) w1"
      by (simp only: cap)
    show ?thesis
      unfolding l get_followers_found [OF assms] e
      by (simp add: failure_followers_update save_results_followers_update
            split: prod.splits sum.splits)
  qed
  have got: "getitem (fst (get_followers env u limit ts px w)) ''status'' = Some (PStr ''success'') \<and>
       getitem (fst (get_followers env u limit ts px w)) ''fetched_count'' =
         Some (PInt (int (length fs))) \<and>
       (\<exists>json_file output_data.
          snd (snd (get_followers env u limit ts px w)) ! 2 = WriteJson json_file output_data \<and>
          getitem output_data ''followers'' = Some (PList (map PDict (process_followers 1 fs))))"
    if "followers env (api_proxy env px) (u_id user) ?cap w1 = (Inr fs, w2)" for fs w2
  proof -
    from that have "followers env (api_proxy env px) (u_id user) (fetch_limit limit) w1 = (Inr fs, w2)"
      by (simp only: cap)
    from get_followers_fetched [OF assms this, of ts] show ?thesis by blast
  qed
  have contract: "getitem (fst (get_followers env u limit ts px w)) ''status'' = Some (PStr ''success'') \<and>
       getitem (fst (get_followers env u limit ts px w)) ''fetched_count'' =
         Some (PInt (if limit \<le> 0 then int (length items) else min limit (int (length items)))) \<and>
       (\<exists>json_file output_data.
          snd (snd (get_followers env u limit ts px w)) ! 2 = WriteJson json_file output_data \<and>
          getitem output_data ''followers'' =
            Some (PList (map PDict (process_followers 1
               (if limit \<le> 0 then items else take (nat limit) items)))))"
    if c: "\<forall>cap. fst (followers env (api_proxy env px) (u_id user) cap w1) = Inr (collected items cap)"
    for items
  proof -
    let ?got = "if limit \<le> 0 then items else take (nat limit) items"
    have col: "collected items ?cap = ?got" by (simp add: collected_def)
    obtain w2 where "followers env (api_proxy env px) (u_id user) ?cap w1 = (Inr ?got, w2)"
      using c [THEN spec, of ?cap] unfolding col
      by (cases "followers env (api_proxy env px) (u_id user) ?cap w1") auto
    note G = got [OF this]
    have len: "int (length ?got) =
        (if limit \<le> 0 then int (length items) else min limit (int (length items)))"
      by auto
    from G show ?thesis by (simp only: len)
  qed
  from ev caps ext got contract show ?thesis by blast
qed

theorem limit_semantics_witness:
  "user_by_login test_env (api_proxy test_env False) ''alice'' 0 =
     (Inr (Some (mk_user 1 ''alice'' 3)), 1) \<and>
   length alice_followers = 3 \<and>
   getitem (fst (get_followers test_env ''alice'' 2 False False 0)) ''fetched_count'' = Some (PInt 2) \<and>
   getitem (fst (get_followers test_env ''alice'' 0 False False 0)) ''fetched_count'' = Some (PInt 3) \<and>
   getitem (fst (get_followers test_env ''alice'' (- 1) False False 0)) ''fetched_count'' = Some (PInt 3) \<and>
   getitem (fst (get_followers test_env ''alice'' 7 False False 0)) ''fetched_count'' = Some (PInt 3) \<and>
   take 2 (snd (snd (get_followers test_env ''alice'' 2 False False 0))) =
     [Lookup ''alice'', Fetch 1 (Some 2)]"
proof -
  have h: "user_by_login test_env (api_proxy test_env False) ''alice'' 0 =
     (Inr (Some (mk_user 1 ''alice'' 3)), 1)"
    by (simp add: test_env_def api_proxy_def)
  have c: "\<forall>cap. fst (followers test_env (api_proxy test_env False) (u_id (mk_user 1 ''alice'' 3)) cap 1) =
      Inr (collected alice_followers cap)"
    by (simp add: test_env_def api_proxy_def mk_user_def collected_def)
  have n: "length alice_followers = 3" by (simp add: alice_followers_def)
  note T = limit_semantics [OF h]
  from T [of 2 False, THEN conjunct2, THEN conjunct2, THEN conjunct2, THEN conjunct2, THEN spec, THEN mp, OF c] n
  have c2: "getitem (fst (get_followers test_env ''alice'' 2 False False 0)) ''fetched_count'' = Some (PInt 2)"
    by simp
  from T [of 0 False, THEN conjunct2, THEN conjunct2, THEN conjunct2, THEN conjunct2, THEN spec, THEN mp, OF c] n
  have c0: "getitem (fst (get_followers test_env ''alice'' 0 False False 0)) ''fetched_count'' = Some (PInt 3)"
    by simp
  from T [of "- 1" False, THEN conjunct2, THEN conjunct2, THEN conjunct2, THEN conjunct2, THEN spec, THEN mp, OF c] n
  have cm: "getitem (fst (get_followers test_env ''alice'' (- 1) False False 0)) ''fetched_count'' = Some (PInt 3)"
    by simp
  from T [of 7 False, THEN conjunct2, THEN conjunct2, THEN conjunct2, THEN conjunct2, THEN spec, THEN mp, OF c] n
  have c7: "getitem (fst (get_followers test_env ''alice'' 7 False False 0)) ''fetched_count'' = Some (PInt 3)"
    by simp
  from T [of 2 False, THEN conjunct1]
  have ev: "take 2 (snd (snd (get_followers test_env ''alice'' 2 False False 0))) =
     [Lookup ''alice'', Fetch 1 (Some 2)]"
    by (simp add: mk_user_def)
  from h n c2 c0 cm c7 ev show ?thesis by blast
qed

text \<open>
  C3 (summaries of a run). As stated the claim fails for a run over exactly one target:
  \<^verbatim>\<open>main\<close> then calls \<open>get_followers\<close> alone and no aggregate summary file is written,
  as the module's own documentation says (the summary file is listed under "For multiple
  targets").
\<close>

theorem run_summaries_in_order_counterexample:
  "\<not> isl (fst (main test_env single_cli 0)) \<and>
   length (projr (fst (main test_env single_cli 0))) = 1 \<and>
   filter is_summary_write (snd (snd (main test_env single_cli 0))) = []"
  by (simp add: single_cli_def main_def parse_args_def test_simps Let_def)

text \<open>
  C3, amended. A run of \<^verbatim>\<open>main\<close> over a list of targets that is not empty completes
  with one summary per target, in the order of the input; over two or more targets it
  writes exactly one aggregate summary file, last, holding these summaries in that
  order, and over exactly one target it writes none. \<open>get_followers_multiple\<close> itself,
  on any list that is not empty, writes exactly one.
\<close>

theorem run_summaries_in_order:
  assumes "cli_usernames c \<noteq> []"
  shows "(\<exists>rs w' evs. main env c w = (Inr rs, w', evs) \<and>
            map (\<lambda>r. getitem r ''username'') rs = map (\<lambda>u. Some (PStr u)) (cli_usernames c) \<and>
            (if length (cli_usernames c) = 1 then filter is_summary_write evs = []
             else \<exists>sfile evs0. evs = evs0 @ [WriteSummary sfile summary_keys rs] \<and>
                    filter is_summary_write evs0 = [])) \<and>
         (\<exists>rs w' sfile evs0.
            get_followers_multiple env (cli_usernames c) limit ts px w =
              (Inr rs, w', evs0 @ [WriteSummary sfile summary_keys rs]) \<and>
            map (\<lambda>r. getitem r ''username'') rs = map (\<lambda>u. Some (PStr u)) (cli_usernames c) \<and>
            filter is_summary_write evs0 = [])"
proof -
  have multi: "\<exists>rs w' sfile evs0.
            get_followers_multiple env (cli_usernames c) l t p w =
              (Inr rs, w', evs0 @ [WriteSummary sfile summary_keys rs]) \<and>
            map (\<lambda>r. getitem r ''username'') rs = map (\<lambda>u. Some (PStr u)) (cli_usernames c) \<and>
            filter is_summary_write evs0 = []" for l t p
    using multiple_nonempty [OF assms, of env l t p w]
      loop_usernames [of env 1 "length (cli_usernames c)" "cli_usernames c" l t p w]
      loop_no_summary_write [of env "cli_usernames c" l t p w]
    by blast
  have "\<exists>rs w' evs. main env c w = (Inr rs, w', evs) \<and>
            map (\<lambda>r. getitem r ''username'') rs = map (\<lambda>u. Some (PStr u)) (cli_usernames c) \<and>
            (if length (cli_usernames c) = 1 then filter is_summary_write evs = []
             else \<exists>sfile evs0. evs = evs0 @ [WriteSummary sfile summary_keys rs] \<and>
                    filter is_summary_write evs0 = [])"
  proof (cases "length (cli_usernames c) = 1")
    case True
    then obtain u where u: "cli_usernames c = [u]" by (cases "cli_usernames c") auto
    let ?l = "case cli_limit c of None \<Rightarrow> 0 | Some l \<Rightarrow> l"
    obtain r w' evs where g: "get_followers env u ?l (cli_timestamp c) (cli_proxy c) w = (r, w', evs)"
      by (cases "get_followers env u ?l (cli_timestamp c) (cli_proxy c) w") auto
    with main_single [OF u, of env w] have m: "main env c w = (Inr [r], w', evs)" by simp
    from g get_followers_username [of env u ?l "cli_timestamp c" "cli_proxy c" w]
    have "getitem r ''username'' = Some (PStr u)" by simp
    moreover from g get_followers_no_summary_write [of env u ?l "cli_timestamp c" "cli_proxy c" w]
    have "filter is_summary_write evs = []" by simp
    ultimately show ?thesis using m u by simp
  next
    case False
    with assms have "2 \<le> length (cli_usernames c)"
      by (cases "cli_usernames c") (auto simp: Suc_le_eq)
    from main_batch [OF this, of env w] multi False show ?thesis by metis
  qed
  with multi show ?thesis by blast
qed

theorem run_summaries_in_order_witness:
  "cli_usernames batch_cli \<noteq> [] \<and> \<not> isl (fst (main test_env batch_cli 0)) \<and>
   map (\<lambda>r. getitem r ''username'') (projr (fst (main test_env batch_cli 0))) =
     [Some (PStr ''alice''), Some (PStr ''nobody''), Some (PStr ''bob'')] \<and>
   length (filter is_summary_write (snd (snd (main test_env batch_cli 0)))) = 1"
proof -
  have ne: "cli_usernames batch_cli \<noteq> []" and len: "length (cli_usernames batch_cli) \<noteq> 1"
    by (simp_all add: batch_cli_def)
  from run_summaries_in_order [OF ne, of test_env 0 0 False False, THEN conjunct1] len
  obtain rs w' sfile evs0 where
    m: "main test_env batch_cli 0 = (Inr rs, w', evs0 @ [WriteSummary sfile summary_keys rs])"
    and names: "map (\<lambda>r. getitem r ''username'') rs = map (\<lambda>u. Some (PStr u)) (cli_usernames batch_cli)"
    and evs0: "filter is_summary_write evs0 = []"
    by auto
  from names have "map (\<lambda>r. getitem r ''username'') rs =
     [Some (PStr ''alice''), Some (PStr ''nobody''), Some (PStr ''bob'')]"
    by (simp add: batch_cli_def)
  with m evs0 ne show ?thesis by simp
qed

text \<open>
  C4 (shape of a summary). As stated the claim fails: the summary has no field for the
  requested limit. No key is \<open>requested_limit\<close>, and no field stands for it under another
  name, since two runs that differ in the limit only return the same summary.
\<close>

theorem run_summary_shape_counterexample:
  "''requested_limit'' \<notin> set (keys (fst (get_followers test_env ''alice'' 5 False False 0))) \<and>
   fst (get_followers test_env ''alice'' 5 False False 0) =
     fst (get_followers test_env ''alice'' 7 False False 0)"
  by (simp add: test_simps Let_def)

text \<open>
  C4, amended. Every summary \<open>get_followers\<close> returns has exactly the fields
  \<open>username\<close> (the target), \<open>display_name\<close>, \<open>total_followers\<close>, \<open>fetched_count\<close>,
  \<open>timestamp\<close>, \<open>status\<close>, \<open>json_file\<close> and \<open>csv_file\<close>, in this order, and none for the
  requested limit. It has one of two shapes: the status is \<open>success\<close>, the count is not
  negative and the two artifact paths are file names; or the status is \<open>error: \<close>
  followed by a reason, the two artifact paths are \<^verbatim>\<open>None\<close>, the count and the total are
  0 and the display name is \<open>N/A\<close>. The status is the one the outcome of the target's
  lookup and fetch calls for. The loop of the batch only appends to its list: the
  summaries already in it are the first entries of the list it returns, unchanged.
\<close>

theorem run_summary_shape:
  "((\<exists>d t c s jf cf.
      fst (get_followers env u limit ts px w) =
        [(''username'', PStr u), (''display_name'', PStr d), (''total_followers'', PInt t),
         (''fetched_count'', PInt c), (''timestamp'', PStr s), (''status'', PStr ''success''),
         (''json_file'', PStr jf), (''csv_file'', PStr cf)] \<and> 0 \<le> c) \<or>
    (\<exists>s reason.
      fst (get_followers env u limit ts px w) =
        [(''username'', PStr u), (''display_name'', PStr ''N/A''), (''total_followers'', PInt 0),
         (''fetched_count'', PInt 0), (''timestamp'', PStr s),
         (''status'', PStr (''error: '' @ reason)),
         (''json_file'', PNone), (''csv_file'', PNone)])) \<and>
   getitem (fst (get_followers env u limit ts px w)) ''status'' =
     Some (PStr (expected_status env u limit px w)) \<and>
   (\<exists>new. fst (get_followers_loop env i n us limit ts px acc w) = acc @ new \<and>
      length new = length us)"
proof -
  obtain rs w' evs where l: "get_followers_loop env i n us limit ts px acc w = (rs, w', evs)"
    by (cases "get_followers_loop env i n us limit ts px acc w") auto
  from loop_results [OF l] l
  have "\<exists>new. fst (get_followers_loop env i n us limit ts px acc w) = acc @ new \<and>
      length new = length us" by auto
  with get_followers_paths [of env u limit ts px w] get_followers_status [where env = env and u = u and limit = limit and ts = ts and px = px and w = w]
  show ?thesis by blast
qed

theorem run_summary_shape_witness:
  "fst (get_followers test_env ''nobody'' 5 False False 0) =
     [(''username'', PStr ''nobody''), (''display_name'', PStr ''N/A''),
      (''total_followers'', PInt 0), (''fetched_count'', PInt 0),
      (''timestamp'', PStr ''2025-11-02T21:30:45''),
      (''status'', PStr ''error: User not found''),
      (''json_file'', PNone), (''csv_file'', PNone)] \<and>
   getitem (fst (get_followers test_env ''alice'' 5 False False 0)) ''json_file'' =
     Some (PStr ''followers_alice.json'')"
proof -
  have run: "getitem (fst (get_followers test_env ''nobody'' 5 False False 0)) ''status'' =
       Some (PStr ''error: User not found'') \<and>
     getitem (fst (get_followers test_env ''nobody'' 5 False False 0)) ''timestamp'' =
       Some (PStr ''2025-11-02T21:30:45'') \<and>
     getitem (fst (get_followers test_env ''alice'' 5 False False 0)) ''json_file'' =
       Some (PStr ''followers_alice.json'')"
    by (simp add: test_simps Let_def)
  from run_summary_shape [of test_env "''nobody''" 5 False False 0 1 0 "[]" "[]", THEN conjunct1] run
  show ?thesis by (auto simp: getitem_def)
qed

text \<open>
  C5 (a target without followers). As stated the claim fails on the artifacts: the
  summary is a success with count 0, but under the guard \<^verbatim>\<open>if results:\<close> no CSV file is
  written for an empty list.
\<close>

theorem zero_followers_counterexample:
  "getitem (fst (get_followers test_env ''bob'' 0 False False 0)) ''status'' = Some (PStr ''success'') \<and>
   getitem (fst (get_followers test_env ''bob'' 0 False False 0)) ''fetched_count'' = Some (PInt 0) \<and>
   filter is_csv_write (snd (snd (get_followers test_env ''bob'' 0 False False 0))) = []"
  by (simp add: test_simps Let_def)

text \<open>
  C5, amended. For a target the lookup finds and whose fetch returns no follower, the
  summary has status \<open>success\<close> and count 0, and the JSON artifact is written, with an
  empty list of followers, under the name the summary gives; no CSV file is written.
\<close>

theorem zero_followers:
  assumes "user_by_login env (api_proxy env px) u w = (Inr (Some user), w1)"
    and "followers env (api_proxy env px) (u_id user) (fetch_limit limit) w1 = (Inr [], w2)"
  shows "getitem (fst (get_followers env u limit ts px w)) ''status'' = Some (PStr ''success'') \<and>
     getitem (fst (get_followers env u limit ts px w)) ''fetched_count'' = Some (PInt 0) \<and>
     (\<exists>json_file output_data.
        snd (snd (get_followers env u limit ts px w)) =
          [Lookup u, Fetch (u_id user) (fetch_limit limit), WriteJson json_file output_data] \<and>
        getitem output_data ''followers'' = Some (PList []) \<and>
        getitem output_data ''fetched_count'' = Some (PInt 0) \<and>
        getitem (fst (get_followers env u limit ts px w)) ''json_file'' = Some (PStr json_file)) \<and>
     filter is_csv_write (snd (snd (get_followers env u limit ts px w))) = []"
proof -
  let ?evs = "[Lookup u, Fetch (u_id user) (fetch_limit limit)]"
  from assms have g: "get_followers env u limit ts px w = save_results env u ts user [] w2 ?evs"
    by (simp add: get_followers_def)
  from save_results_events [of env u ts user "[]" w2 ?evs]
  obtain json_file output_data where
    "snd (snd (save_results env u ts user [] w2 ?evs)) = ?evs @ [WriteJson json_file output_data]"
    "getitem output_data ''followers'' = Some (PList [])"
    "getitem output_data ''fetched_count'' = Some (PInt 0)"
    "getitem (fst (save_results env u ts user [] w2 ?evs)) ''json_file'' = Some (PStr json_file)"
    by auto
  moreover have "getitem (fst (save_results env u ts user [] w2 ?evs)) ''fetched_count'' = Some (PInt 0)"
    by (simp add: save_results_def getitem_def Let_def split: prod.splits)
  ultimately show ?thesis using g by (simp add: save_results_status)
qed

theorem zero_followers_witness:
  "user_by_login test_env (api_proxy test_env False) ''bob'' 0 = (Inr (Some (mk_user 2 ''bob'' 0)), 1) \<and>
   followers test_env (api_proxy test_env False) (u_id (mk_user 2 ''bob'' 0)) (fetch_limit 0) 1 = (Inr [], 2) \<and>
   getitem (fst (get_followers test_env ''bob'' 0 False False 0)) ''status'' = Some (PStr ''success'') \<and>
   filter is_csv_write (snd (snd (get_followers test_env ''bob'' 0 False False 0))) = []"
proof -
  have h1: "user_by_login test_env (api_proxy test_env False) ''bob'' 0 = (Inr (Some (mk_user 2 ''bob'' 0)), 1)"
    by (simp add: test_env_def api_proxy_def)
  have h2: "followers test_env (api_proxy test_env False) (u_id (mk_user 2 ''bob'' 0)) (fetch_limit 0) 1 = (Inr [], 2)"
    by (simp add: test_env_def api_proxy_def mk_user_def fetch_limit_def)
  from zero_followers [OF h1 h2, of False] h1 h2 show ?thesis by blast
qed

text \<open>
  C7 (pause between targets). The effects of a batch are the effects of the targets'
  collections, in the order of the input, with one pause of 2 seconds between every two
  consecutive collections, and one last effect that is not a pause; no collection
  pauses, whatever its outcome, so the pauses of a batch over \<open>n\<close> targets are exactly
  \<open>n - 1\<close> pauses of 2 seconds. By \<open>main_batch\<close> this is the run of \<^verbatim>\<open>main\<close> over two
  or more targets.
\<close>

theorem inter_target_cooldown:
  "\<exists>segs last.
     snd (snd (get_followers_multiple env us limit ts px w)) =
       concat (intersperse [Sleep 2] segs) @ [last] \<and>
     \<not> is_sleep last \<and>
     length segs = length us \<and>
     (\<forall>k<length us.
        filter is_sleep (segs ! k) = [] \<and>
        (\<exists>wk. segs ! k = snd (snd (get_followers env (us ! k) limit ts px wk)))) \<and>
     filter is_sleep (snd (snd (get_followers_multiple env us limit ts px w))) =
       replicate (length us - 1) (Sleep 2)"
proof -
  obtain rs w1 evs where l: "get_followers_loop env 1 (length us) us limit ts px [] w = (rs, w1, evs)"
    by (cases "get_followers_loop env 1 (length us) us limit ts px [] w") auto
  from loop_events [OF _ l] obtain segs where segs: "length segs = length us"
    "evs = concat (intersperse [Sleep 2] segs)"
    "\<forall>k<length us. \<exists>wk. segs ! k = snd (snd (get_followers env (us ! k) limit ts px wk))"
    by auto
  from l multiple_last [of env us limit ts px w] obtain last where last:
    "snd (snd (get_followers_multiple env us limit ts px w)) = evs @ [last]" "\<not> is_sleep last"
    by auto
  from loop_sleeps [of env us limit ts px w] l
  have "filter is_sleep evs = replicate (length us - 1) (Sleep 2)" by simp
  with last have sl: "filter is_sleep (snd (snd (get_followers_multiple env us limit ts px w))) =
       replicate (length us - 1) (Sleep 2)" by simp
  have "\<forall>k<length us. filter is_sleep (segs ! k) = [] \<and>
        (\<exists>wk. segs ! k = snd (snd (get_followers env (us ! k) limit ts px wk)))"
    using segs(3) get_followers_no_sleep by metis
  with segs(1,2) last sl show ?thesis by blast
qed

theorem inter_target_cooldown_witness:
  "filter is_sleep (snd (snd (get_followers_multiple test_env test_targets 0 False False 0))) =
     [Sleep 2, Sleep 2] \<and>
   map is_sleep (snd (snd (get_followers_multiple test_env test_targets 0 False False 0))) =
     [False, False, False, False, True, False, True, False, False, False, False]"
proof -
  have run: "map is_sleep (snd (snd (get_followers_multiple test_env test_targets 0 False False 0))) =
     [False, False, False, False, True, False, True, False, False, False, False]"
    by (simp add: get_followers_multiple_def test_targets_def test_simps Let_def)
  from inter_target_cooldown [of test_env test_targets 0 False False 0]
  have "filter is_sleep (snd (snd (get_followers_multiple test_env test_targets 0 False False 0))) =
     replicate (length test_targets - 1) (Sleep 2)" by blast
  then have "filter is_sleep (snd (snd (get_followers_multiple test_env test_targets 0 False False 0))) =
     [Sleep 2, Sleep 2]"
    by (simp add: test_targets_def numeral_2_eq_2)
  with run show ?thesis by simp
qed

text \<open>
  C8 (default of the command line). When \<^verbatim>\<open>--limit\<close> is not given, the parsed limit
  is in the unbounded range \<open>limit \<le> 0\<close>, so the cap is absent and every fetch request
  of the run is unbounded.
\<close>

theorem cli_default_unbounded:
  assumes "cli_limit c = None" and "cli_usernames c \<noteq> []"
  shows "\<exists>a. parse_args c = Inr a \<and> args_limit a \<le> 0 \<and> fetch_limit (args_limit a) = None \<and>
     (\<forall>uid cap. Fetch uid cap \<in> set (snd (snd (main env c w))) \<longrightarrow> cap = None)"
proof -
  let ?a = "\<lparr>args_usernames = cli_usernames c, args_limit = 0,
              args_timestamp = cli_timestamp c, args_proxy = cli_proxy c\<rparr>"
  from assms have p: "parse_args c = Inr ?a" by (simp add: parse_args_def)
  have "cap = None" if f: "Fetch uid cap \<in> set (snd (snd (main env c w)))" for uid cap
  proof (cases "length (cli_usernames c) = 1")
    case True
    then obtain u where u: "cli_usernames c = [u]" by (cases "cli_usernames c") auto
    from f main_single [OF u, of env w] assms(1)
    have "Fetch uid cap \<in> set (snd (snd (get_followers env u 0 (cli_timestamp c) (cli_proxy c) w)))"
      by (simp add: Let_def split: prod.splits)
    from get_followers_fetch_cap [OF this] show ?thesis by (simp add: fetch_limit_def)
  next
    case False
    with assms(2) have "2 \<le> length (cli_usernames c)"
      by (cases "cli_usernames c") (auto simp: Suc_le_eq)
    from main_batch [OF this, of env w] assms(1)
    have m: "main env c w = get_followers_multiple env (cli_usernames c) 0 (cli_timestamp c) (cli_proxy c) w"
      by simp
    from multiple_nonempty [OF assms(2), of env 0 "cli_timestamp c" "cli_proxy c" w] m f
    obtain sfile where "Fetch uid cap \<in> set (snd (snd (get_followers_loop env 1 (length (cli_usernames c))
         (cli_usernames c) 0 (cli_timestamp c) (cli_proxy c) [] w))
          @ [WriteSummary sfile summary_keys (fst (get_followers_loop env 1 (length (cli_usernames c))
         (cli_usernames c) 0 (cli_timestamp c) (cli_proxy c) [] w))])"
      by auto
    then have "Fetch uid cap \<in> set (snd (snd (get_followers_loop env 1 (length (cli_usernames c))
         (cli_usernames c) 0 (cli_timestamp c) (cli_proxy c) [] w)))" by simp
    from loop_fetch_cap [OF this] show ?thesis
      by (simp add: fetch_limit_def)
  qed
  with p show ?thesis by (simp add: fetch_limit_def)
qed

theorem cli_default_unbounded_witness:
  "cli_limit single_cli = None \<and> cli_usernames single_cli \<noteq> [] \<and>
   Fetch 1 None \<in> set (snd (snd (main test_env single_cli 0))) \<and>
   (case parse_args single_cli of Inl e \<Rightarrow> False | Inr a \<Rightarrow> args_limit a = 0)"
proof -
  have hyps: "cli_limit single_cli = None" "cli_usernames single_cli \<noteq> []"
    by (simp_all add: single_cli_def)
  have run: "Fetch 1 None \<in> set (snd (snd (main test_env single_cli 0)))"
    by (simp add: single_cli_def main_def parse_args_def test_simps Let_def)
  from cli_default_unbounded [OF hyps, of test_env 0]
  have "case parse_args single_cli of Inl e \<Rightarrow> False | Inr a \<Rightarrow> args_limit a = 0"
    by (auto simp: single_cli_def parse_args_def)
  with hyps run show ?thesis by simp
qed

text \<open>
  C9 (ranks). The processed records are as many as the followers fetched; their ranks
  are 1, 2, \<dots>, \<open>n\<close> in this order, so without gap or duplicate; the \<open>k\<close>-th record is the
  record of the \<open>k\<close>-th follower the platform returned. In a successful collection these
  records, in this order, are the \<open>followers\<close> of the JSON artifact, whose count is the
  count of the summary.
\<close>

theorem follower_ranking:
  "length (process_followers 1 fs) = length fs \<and>
   map (\<lambda>d. getitem d ''rank'') (process_followers 1 fs) =
     map (\<lambda>j. Some (PInt j)) [1..int (length fs)] \<and>
   (\<forall>k<length fs. process_followers 1 fs ! k = follower_data (int k + 1) (fs ! k) \<and>
       getitem (process_followers 1 fs ! k) ''user_id'' = Some (PInt (u_id (fs ! k)))) \<and>
   (user_by_login env (api_proxy env px) u w = (Inr (Some user), w1) \<longrightarrow>
    followers env (api_proxy env px) (u_id user) (fetch_limit limit) w1 = (Inr fs, w2) \<longrightarrow>
      getitem (fst (get_followers env u limit ts px w)) ''status'' = Some (PStr ''success'') \<and>
      getitem (fst (get_followers env u limit ts px w)) ''fetched_count'' =
        Some (PInt (int (length fs))) \<and>
      (\<exists>json_file output_data.
         snd (snd (get_followers env u limit ts px w)) ! 2 = WriteJson json_file output_data \<and>
         getitem output_data ''followers'' = Some (PList (map PDict (process_followers 1 fs))) \<and>
         getitem output_data ''fetched_count'' = Some (PInt (int (length fs)))))"
proof -
  have nth: "\<forall>k<length fs. process_followers 1 fs ! k = follower_data (int k + 1) (fs ! k) \<and>
       getitem (process_followers 1 fs ! k) ''user_id'' = Some (PInt (u_id (fs ! k)))"
    by (simp add: process_followers_nth add.commute) (simp add: follower_data_def getitem_def)
  have run: "getitem (fst (get_followers env u limit ts px w)) ''status'' = Some (PStr ''success'') \<and>
      getitem (fst (get_followers env u limit ts px w)) ''fetched_count'' =
        Some (PInt (int (length fs))) \<and>
      (\<exists>json_file output_data.
         snd (snd (get_followers env u limit ts px w)) ! 2 = WriteJson json_file output_data \<and>
         getitem output_data ''followers'' = Some (PList (map PDict (process_followers 1 fs))) \<and>
         getitem output_data ''fetched_count'' = Some (PInt (int (length fs))))"
    if h1: "user_by_login env (api_proxy env px) u w = (Inr (Some user), w1)"
      and h2: "followers env (api_proxy env px) (u_id user) (fetch_limit limit) w1 = (Inr fs, w2)"
  proof -
    let ?evs = "[Lookup u, Fetch (u_id user) (fetch_limit limit)]"
    from h1 h2 have g: "get_followers env u limit ts px w = save_results env u ts user fs w2 ?evs"
      by (simp add: get_followers_def)
    from save_results_events [of env u ts user fs w2 ?evs]
    obtain json_file output_data rest where
      "snd (snd (save_results env u ts user fs w2 ?evs)) = ?evs @ [WriteJson json_file output_data] @ rest"
      "getitem output_data ''followers'' = Some (PList (map PDict (process_followers 1 fs)))"
      "getitem output_data ''fetched_count'' = Some (PInt (int (length fs)))"
      by blast
    moreover have "getitem (fst (save_results env u ts user fs w2 ?evs)) ''fetched_count'' =
        Some (PInt (int (length fs)))"
      by (simp add: save_results_def getitem_def Let_def split: prod.splits)
    ultimately show ?thesis using g by (simp add: save_results_status numeral_2_eq_2)
  qed
  from process_followers_ranks [of 1 fs]
  have ranks: "map (\<lambda>d. getitem d ''rank'') (process_followers 1 fs) =
     map (\<lambda>j. Some (PInt j)) [1..int (length fs)]" by simp
  from ranks nth run process_followers_length [of 1 fs] show ?thesis by blast
qed

theorem follower_ranking_witness:
  "user_by_login test_env (api_proxy test_env False) ''alice'' 0 = (Inr (Some (mk_user 1 ''alice'' 3)), 1) \<and>
   followers test_env (api_proxy test_env False) (u_id (mk_user 1 ''alice'' 3)) (fetch_limit 0) 1 =
     (Inr alice_followers, 2) \<and>
   2 < length alice_followers \<and>
   map (\<lambda>d. getitem d ''rank'') (process_followers 1 alice_followers) =
     [Some (PInt 1), Some (PInt 2), Some (PInt 3)] \<and>
   getitem (process_followers 1 alice_followers ! 2) ''user_id'' = Some (PInt 13) \<and>
   getitem (fst (get_followers test_env ''alice'' 0 False False 0)) ''fetched_count'' = Some (PInt 3)"
proof -
  note T = follower_ranking [of alice_followers test_env False "''alice''" 0 "mk_user 1 ''alice'' 3" 1 0 2 False]
  have h1: "user_by_login test_env (api_proxy test_env False) ''alice'' 0 = (Inr (Some (mk_user 1 ''alice'' 3)), 1)"
    by (simp add: test_env_def api_proxy_def)
  have h2: "followers test_env (api_proxy test_env False) (u_id (mk_user 1 ''alice'' 3)) (fetch_limit 0) 1 =
     (Inr alice_followers, 2)"
    by (simp add: test_env_def api_proxy_def mk_user_def fetch_limit_def)
  have k: "2 < length alice_followers" by (simp add: alice_followers_def)
  have up: "[1..int (length alice_followers)] = [1, 2, 3]"
    by (simp add: alice_followers_def upto_rec1)
  from T [THEN conjunct2, THEN conjunct1] up
  have ranks: "map (\<lambda>d. getitem d ''rank'') (process_followers 1 alice_followers) =
     [Some (PInt 1), Some (PInt 2), Some (PInt 3)]" by simp
  from T [THEN conjunct2, THEN conjunct2, THEN conjunct1, THEN spec, THEN mp, OF k, THEN conjunct2]
  have uid: "getitem (process_followers 1 alice_followers ! 2) ''user_id'' = Some (PInt 13)"
    by (simp add: alice_followers_def mk_user_def)
  from T [THEN conjunct2, THEN conjunct2, THEN conjunct2, THEN mp, THEN mp, OF h1 h2, THEN conjunct2, THEN conjunct1]
  have cnt: "getitem (fst (get_followers test_env ''alice'' 0 False False 0)) ''fetched_count'' = Some (PInt 3)"
    by (simp add: alice_followers_def)
  from h1 h2 k ranks uid cnt show ?thesis by blast
qed

section \<open>Lemmas on add_account.py\<close>

lemma adds_of_append: "adds_of (evs @ evs') = adds_of evs @ adds_of evs'"
  by (induction evs rule: adds_of.induct) simp_all




lemma add_account_pool_general:
  "fst (fst (add_account_with_cookies env penv u c (pool, w))) =
     pool_add_account penv
       \<lparr>acc_username = u, acc_password = [], acc_email = [], acc_email_password = [],
         acc_cookies = c\<rparr>
       (case fst (delete_raises penv u pool w) of
          None \<Rightarrow> delete_accounts u pool
        | Some e \<Rightarrow> pool)"
proof -
  obtain failed w0 where d: "delete_raises penv u pool w = (failed, w0)"
    by (cases "delete_raises penv u pool w") auto
  show ?thesis
    by (cases failed) (simp_all add: add_account_with_cookies_def d Let_def split: prod.splits)
qed

lemma add_account_pool:
  assumes "fst (delete_raises penv u pool w) = None"
  shows "fst (fst (add_account_with_cookies env penv u c (pool, w))) =
     delete_accounts u pool @
       [\<lparr>acc_username = u, acc_password = [], acc_email = [], acc_email_password = [],
         acc_cookies = c\<rparr>]"
proof -
  have "u \<notin> set (map acc_username (delete_accounts u pool))"
    by (auto simp: delete_accounts_def)
  with assms show ?thesis
    by (simp add: add_account_pool_general pool_add_account_def)
qed


lemma add_account_pool_fst:
  assumes "fst (delete_raises penv u (fst st) (snd st)) = None"
  shows "fst (fst (add_account_with_cookies env penv u c st)) =
     delete_accounts u (fst st) @
       [\<lparr>acc_username = u, acc_password = [], acc_email = [], acc_email_password = [],
         acc_cookies = c\<rparr>]"
  using assms by (cases st) (simp add: add_account_pool)

lemma add_account_adds:
  "adds_of (snd (add_account_with_cookies env penv u c st)) = [(u, c)]"
proof -
  obtain pool w where st: "st = (pool, w)" by (cases st)
  obtain failed w0 where d: "delete_raises penv u pool w = (failed, w0)"
    by (cases "delete_raises penv u pool w") auto
  show ?thesis
    by (cases failed)
      (simp_all add: add_account_with_cookies_def st d Let_def adds_of_append split: prod.splits)
qed



lemma split_colon_three:
  "split_colon line = [u, a, c] \<Longrightarrow>
     entry_of line = Some (u, ''auth_token='' @ a @ ''; ct0='' @ c)"
  by (simp add: entry_of_def)

lemma add_lines_step_entry:
  assumes "split_colon line = [u, a, c]"
  shows "add_lines env penv (line # rest) st =
     (let (st1, evs1) = add_account_with_cookies env penv u (''auth_token='' @ a @ ''; ct0='' @ c) st;
          (st2, evs2) = add_lines env penv rest st1
      in (st2, evs1 @ evs2))"
  using assms by simp

lemma add_lines_step_skip:
  assumes "length (split_colon line) \<noteq> 3"
  shows "add_lines env penv (line # rest) st =
     (let (st2, evs2) = add_lines env penv rest st in (st2, Skipping line # evs2))"
  using assms by (auto split: list.splits)

lemma entry_of_None: "length (split_colon line) \<noteq> 3 \<Longrightarrow> entry_of line = None"
  by (simp add: entry_of_def)

lemma three_fields:
  "length (split_colon line) = 3 \<Longrightarrow> \<exists>u a c. split_colon line = [u, a, c]"
  by (auto simp: length_Suc_conv numeral_3_eq_3)

lemma add_lines_entries:
  "fst (add_lines env penv ls st) = add_each env penv (List.map_filter entry_of ls) st \<and>
   adds_of (snd (add_lines env penv ls st)) = List.map_filter entry_of ls"
proof (induction ls arbitrary: st)
  case Nil
  then show ?case by simp
next
  case (Cons line rest)
  show ?case
  proof (cases "length (split_colon line) = 3")
    case True
    from three_fields [OF True] obtain u a c where f: "split_colon line = [u, a, c]" by blast
    then have e: "entry_of line = Some (u, ''auth_token='' @ a @ ''; ct0='' @ c)"
      by (simp add: split_colon_three)
    obtain st1 evs1 where a1:
      "add_account_with_cookies env penv u (''auth_token='' @ a @ ''; ct0='' @ c) st = (st1, evs1)"
      by (cases "add_account_with_cookies env penv u (''auth_token='' @ a @ ''; ct0='' @ c) st") auto
    with add_account_adds [of env penv u "''auth_token='' @ a @ ''; ct0='' @ c" st]
    have ev: "adds_of evs1 = [(u, ''auth_token='' @ a @ ''; ct0='' @ c)]" by simp
    obtain st2 evs2 where a2: "add_lines env penv rest st1 = (st2, evs2)"
      by (cases "add_lines env penv rest st1") auto
    from add_lines_step_entry [OF f, of env penv rest st] a1 a2
    have "add_lines env penv (line # rest) st = (st2, evs1 @ evs2)" by simp
    with Cons.IH [of st1] a1 a2 e ev show ?thesis
      by (simp add: adds_of_append del: add_lines.simps)
  next
    case False
    obtain st2 evs2 where a2: "add_lines env penv rest st = (st2, evs2)"
      by (cases "add_lines env penv rest st") auto
    from add_lines_step_skip [OF False, of env penv rest st] a2
    have "add_lines env penv (line # rest) st = (st2, Skipping line # evs2)" by simp
    with Cons.IH [of st] a2 entry_of_None [OF False] show ?thesis
      by (simp del: add_lines.simps)
  qed
qed

lemma kept_lines:
  "map strip (filter (\<lambda>line. strip line \<noteq> []) file_lines) =
     filter (\<lambda>line. line \<noteq> []) (map strip file_lines)"
  by (induction file_lines) simp_all

lemma add_all_entries:
  "fst (add_all_from_file env penv file_lines st) = add_each env penv (entries file_lines) st \<and>
   adds_of (snd (add_all_from_file env penv file_lines st)) = entries file_lines"
  using add_lines_entries [of env penv "filter (\<lambda>line. line \<noteq> []) (map strip file_lines)" st]
  by (simp add: add_all_from_file_def entries_def kept_lines)

lemma map_filter_append: "List.map_filter f (xs @ ys) = List.map_filter f xs @ List.map_filter f ys"
  by (simp add: List.map_filter_def)

lemma entries_drop:
  assumes "strip line = [] \<or> length (split_colon (strip line)) \<noteq> 3"
  shows "entries (pre @ line # post) = entries (pre @ post)"
  using assms
  by (auto simp: entries_def map_filter_append entry_of_None)

lemma entries_usernames:
  "map fst (entries file_lines) =
     map (\<lambda>line. hd (split_colon (strip line)))
       (filter (\<lambda>line. strip line \<noteq> [] \<and> length (split_colon (strip line)) = 3) file_lines)"
proof (induction file_lines)
  case Nil
  then show ?case by (simp add: entries_def)
next
  case (Cons line rest)
  have "entries (line # rest) = entries ([] @ line # rest)" by simp
  show ?case
  proof (cases "strip line = [] \<or> length (split_colon (strip line)) \<noteq> 3")
    case True
    from entries_drop [OF True, of "[]" rest] Cons.IH True show ?thesis by auto
  next
    case False
    then obtain u a c where f: "split_colon (strip line) = [u, a, c]"
      using three_fields by blast
    from False split_colon_three [OF f]
    have "entries (line # rest) = (u, ''auth_token='' @ a @ ''; ct0='' @ c) # entries rest"
      by (simp add: entries_def)
    with Cons.IH False f show ?thesis by simp
  qed
qed

lemma test_entries:
  "entries test_file =
     [(''alice'', ''auth_token=tok1; ct0=csrf1''), (''bob'', ''auth_token=tok2; ct0=csrf2''),
      (''alice'', ''auth_token=tok3; ct0=csrf3'')]"
  by code_simp


section \<open>Properties of add_account.py\<close>




text \<open>
  C10 (the credentials file). Loading the lines of a file never fails. The accounts
  added are the \<open>entries\<close> of the file, one after the other in the order of the file:
  the lines that, stripped, are not empty and split into exactly three fields, the
  first field being the user name. A blank line is ignored: the run is the run on the
  file without it. A line that does not split into exactly three fields is skipped: the
  pool at the end and the accounts added are those of the file without it, so the
  lines around it are processed all the same.
\<close>

theorem credential_file_robustness:
  "fst (add_all_from_file env penv file_lines st) = add_each env penv (entries file_lines) st \<and>
   adds_of (snd (add_all_from_file env penv file_lines st)) = entries file_lines \<and>
   map fst (entries file_lines) =
     map (\<lambda>line. hd (split_colon (strip line)))
       (filter (\<lambda>line. strip line \<noteq> [] \<and> length (split_colon (strip line)) = 3) file_lines) \<and>
   (strip line = [] \<longrightarrow>
      add_all_from_file env penv (pre @ line # post) st =
        add_all_from_file env penv (pre @ post) st) \<and>
   (length (split_colon (strip line)) \<noteq> 3 \<longrightarrow>
      fst (add_all_from_file env penv (pre @ line # post) st) =
        fst (add_all_from_file env penv (pre @ post) st) \<and>
      adds_of (snd (add_all_from_file env penv (pre @ line # post) st)) =
        adds_of (snd (add_all_from_file env penv (pre @ post) st)))"
proof -
  have blank: "add_all_from_file env penv (pre @ line # post) st =
        add_all_from_file env penv (pre @ post) st" if "strip line = []"
    using that by (simp add: add_all_from_file_def)
  have bad: "fst (add_all_from_file env penv (pre @ line # post) st) =
        fst (add_all_from_file env penv (pre @ post) st) \<and>
      adds_of (snd (add_all_from_file env penv (pre @ line # post) st)) =
        adds_of (snd (add_all_from_file env penv (pre @ post) st))"
    if "length (split_colon (strip line)) \<noteq> 3"
    using that entries_drop [of line pre post]
    by (simp add: add_all_entries)
  from blank bad add_all_entries [of env penv file_lines st] entries_usernames [of file_lines]
  show ?thesis by blast
qed

theorem credential_file_robustness_witness:
  "strip (test_file ! 1) = [] \<and> length (split_colon (strip (test_file ! 2))) \<noteq> 3 \<and>
   adds_of (snd (add_all_from_file test_env test_penv test_file ([], 0))) =
     [(''alice'', ''auth_token=tok1; ct0=csrf1''), (''bob'', ''auth_token=tok2; ct0=csrf2''),
      (''alice'', ''auth_token=tok3; ct0=csrf3'')] \<and>
   map acc_username (fst (fst (add_all_from_file test_env test_penv test_file ([], 0)))) =
     [''bob'', ''alice''] \<and>
   add_all_from_file test_env test_penv ([test_file ! 0] @ test_file ! 1 # [test_file ! 4]) ([], 0) =
     add_all_from_file test_env test_penv ([test_file ! 0] @ [test_file ! 4]) ([], 0) \<and>
   adds_of (snd (add_all_from_file test_env test_penv
                   ([test_file ! 0] @ test_file ! 2 # [test_file ! 4]) ([], 0))) =
     adds_of (snd (add_all_from_file test_env test_penv ([test_file ! 0] @ [test_file ! 4]) ([], 0)))"
proof -
  note T = credential_file_robustness [of test_env test_penv test_file "([], 0)"]
  note B = credential_file_robustness [of test_env test_penv test_file "([], 0)" "test_file ! 1"
      "[test_file ! 0]" "[test_file ! 4]"]
  note M = credential_file_robustness [of test_env test_penv test_file "([], 0)" "test_file ! 2"
      "[test_file ! 0]" "[test_file ! 4]"]
  have b: "strip (test_file ! 1) = []" by code_simp
  have m: "length (split_colon (strip (test_file ! 2))) \<noteq> 3" by code_simp
  from T [THEN conjunct2, THEN conjunct1] test_entries
  have adds: "adds_of (snd (add_all_from_file test_env test_penv test_file ([], 0))) =
     [(''alice'', ''auth_token=tok1; ct0=csrf1''), (''bob'', ''auth_token=tok2; ct0=csrf2''),
      (''alice'', ''auth_token=tok3; ct0=csrf3'')]" by simp
  from T [THEN conjunct1] test_entries
  have "fst (add_all_from_file test_env test_penv test_file ([], 0)) =
     add_each test_env test_penv
       [(''alice'', ''auth_token=tok1; ct0=csrf1''), (''bob'', ''auth_token=tok2; ct0=csrf2''),
        (''alice'', ''auth_token=tok3; ct0=csrf3'')] ([], 0)" by simp
  then have pool: "map acc_username (fst (fst (add_all_from_file test_env test_penv test_file ([], 0)))) =
     [''bob'', ''alice'']"
    by (simp add: add_account_pool_fst delete_accounts_def test_penv_def)
  from B [THEN conjunct2, THEN conjunct2, THEN conjunct2, THEN conjunct1, THEN mp, OF b]
    M [THEN conjunct2, THEN conjunct2, THEN conjunct2, THEN conjunct2, THEN mp, OF m]
    b m adds pool
  show ?thesis by blast
qed

end
